theory Spec2Isabelle
  imports Complex_Main "HOL-Library.Word" "HOL-Library.Product_Lexorder"
    "HOL-Library.List_Lexorder" "HOL-Library.Char_ord" "HOL-Library.Log_Nat"
begin

text \<open>
  s3usage collects the usage of the buckets of a Ceph cluster from its admin API, keeps the
  samples in an SQLite database, averages them by month and prunes the samples of months
  that are over and averaged. This theory models the package \<^verbatim>\<open>db\<close> (the store, its
  aggregation and its pruning) and the decoding side of the package \<^verbatim>\<open>ceph\<close> (the client),
  and proves what each of them does. What lies outside the program is a parameter of the
  model: the readings of the clock, the failures of the storage, and the outcome of each
  HTTP request.
\<close>

section \<open>Go's time package, as far as the store uses it\<close>

text \<open>
  A \<^verbatim>\<open>time.Time\<close> in UTC is modelled by its instant: the number of nanoseconds since
  1970-01-01 00:00:00 UTC, an unbounded integer. The calendar is the proleptic Gregorian
  one; the functions below follow the package's own \<^verbatim>\<open>daysSinceEpoch\<close>, \<^verbatim>\<open>Date\<close>,
  \<^verbatim>\<open>absDate\<close> and \<^verbatim>\<open>AddDate\<close> (the cycles of 400, 100, 4 and 1 years), with days counted
  from 0001-01-01 and floor division in place of the package's shifted unsigned counts.
\<close>

type_synonym instant = int

definition Second :: int where
  "Second = 1000000000"

definition nanosPerDay :: int where
  "nanosPerDay = 86400 * Second"

text \<open>Days from 0001-01-01 to 1970-01-01.\<close>

definition unixEpochDays :: int where
  "unixEpochDays = 719162"

definition isLeap :: "int \<Rightarrow> bool" where
  "isLeap year = (year mod 4 = 0 \<and> (year mod 100 \<noteq> 0 \<or> year mod 400 = 0))"

text \<open>Days from 0001-01-01 to January 1 of \<open>year\<close>.\<close>

definition daysSinceEpoch :: "int \<Rightarrow> int" where
  "daysSinceEpoch year =
     (let y = year - 1;
          n400 = y div 400; y1 = y - 400 * n400;
          n100 = y1 div 100; y2 = y1 - 100 * n100;
          n4 = y2 div 4; y3 = y2 - 4 * n4
      in 146097 * n400 + 36524 * n100 + 1461 * n4 + 365 * y3)"

text \<open>Days before each month of a year that is not a leap year; a thirteenth entry closes the year.\<close>

definition daysBefore :: "int list" where
  "daysBefore = [0, 31, 59, 90, 120, 151, 181, 212, 243, 273, 304, 334, 365]"

text \<open>
  \<^verbatim>\<open>time.Date(year, month, day, hour, min, sec, nsec, time.UTC)\<close>: a month outside 1..12
  overflows into the year; the other fields overflow into the day count, which is linear
  in them.
\<close>

definition time_Date :: "int \<Rightarrow> int \<Rightarrow> int \<Rightarrow> int \<Rightarrow> int \<Rightarrow> int \<Rightarrow> int \<Rightarrow> instant" where
  "time_Date year month day hour minute sec nsec =
     (let m = (month - 1) mod 12;
          y = year + (month - 1) div 12;
          d = daysSinceEpoch y + daysBefore ! nat m
              + (if isLeap y \<and> m \<ge> 2 then 1 else 0) + (day - 1)
      in (d - unixEpochDays) * nanosPerDay
         + (hour * 3600 + minute * 60 + sec) * Second + nsec)"

text \<open>
  \<^verbatim>\<open>absDate\<close>: the year and the day of the year (from 0) of a day count from 0001-01-01.
\<close>

definition absYear :: "int \<Rightarrow> int \<times> int" where
  "absYear days =
     (let n400 = days div 146097; d1 = days - 146097 * n400;
          q100 = d1 div 36524; n100 = q100 - q100 div 4; d2 = d1 - 36524 * n100;
          n4 = d2 div 1461; d3 = d2 - 1461 * n4;
          q1 = d3 div 365; n1 = q1 - q1 div 4; yday = d3 - 365 * n1
      in (400 * n400 + 100 * n100 + 4 * n4 + n1 + 1, yday))"

text \<open>The month (1..12) and the day of the month of a day of the year.\<close>

definition monthDay :: "bool \<Rightarrow> int \<Rightarrow> int \<times> int" where
  "monthDay leap yday =
     (if leap \<and> yday = 31 + 29 - 1 then (2, 29)
      else
        let day = (if leap \<and> yday > 31 + 29 - 1 then yday - 1 else yday);
            m = day div 31;
            e = daysBefore ! nat (m + 1)
        in if day \<ge> e then (m + 2, day - e + 1)
           else (m + 1, day - daysBefore ! nat m + 1))"

definition absDate :: "int \<Rightarrow> int \<times> int \<times> int" where
  "absDate days =
     (let (year, yday) = absYear days;
          (month, day) = monthDay (isLeap year) yday
      in (year, month, day))"

text \<open>\<^verbatim>\<open>t.Date()\<close> of a UTC time.\<close>

definition time_date :: "instant \<Rightarrow> int \<times> int \<times> int" where
  "time_date t = absDate (t div nanosPerDay + unixEpochDays)"

text \<open>\<^verbatim>\<open>t.AddDate(years, months, days)\<close> of a UTC time, by way of \<^verbatim>\<open>Date\<close> as in the package.\<close>

definition AddDate :: "instant \<Rightarrow> int \<Rightarrow> int \<Rightarrow> int \<Rightarrow> instant" where
  "AddDate t years months days =
     (let (year, month, day) = time_date t;
          tod = t mod nanosPerDay;
          hour = tod div (3600 * Second);
          minute = (tod mod (3600 * Second)) div (60 * Second);
          sec = (tod mod (60 * Second)) div Second;
          nsec = tod mod Second
      in time_Date (year + years) (month + months) (day + days) hour minute sec nsec)"

definition Add :: "instant \<Rightarrow> int \<Rightarrow> instant" where
  "Add t d = t + d"

definition Before :: "instant \<Rightarrow> instant \<Rightarrow> bool" where
  "Before t u = (t < u)"

text \<open>
  \<^verbatim>\<open>time.Now()\<close> carries the local zone: its instant and the zone's offset from UTC in
  seconds (east positive). \<^verbatim>\<open>Year()\<close> and \<^verbatim>\<open>Month()\<close> read the calendar in that zone.
\<close>

record Time =
  unixNano :: instant
  zoneOffset :: int

definition Year :: "Time \<Rightarrow> int" where
  "Year t = fst (time_date (unixNano t + zoneOffset t * Second))"

definition Month :: "Time \<Rightarrow> int" where
  "Month t = fst (snd (time_date (unixNano t + zoneOffset t * Second)))"

section \<open>The store\<close>

text \<open>
  \<^verbatim>\<open>models.BucketUsage\<close>, which is also a row of the table \<^verbatim>\<open>bucket_usage\<close>. Go's
  \<^verbatim>\<open>int64\<close> fields are 64-bit words, read as signed numbers with \<open>sint\<close>. The timestamp is
  an instant: the program stamps its samples in UTC, asks for windows in UTC, and the
  column is compared in the order of instants.
\<close>

record BucketUsage =
  ID :: "64 word"
  BucketName :: string
  SizeBytes :: "64 word"
  ObjectCount :: "64 word"
  Timestamp :: instant

text \<open>
  A row of the table \<^verbatim>\<open>monthly_averages\<close>, which is also \<^verbatim>\<open>models.MonthlyBucketAverage\<close>.
  Its \<^verbatim>\<open>REAL\<close> columns and the \<^verbatim>\<open>float64\<close> fields hold the same 64-bit floats; a float is
  modelled by the real number it holds, and the arithmetic that produces it rounds (see
  \<open>float64_div\<close> below). The column \<^verbatim>\<open>id\<close> of this table is left out: no statement of
  the program reads or writes it.
\<close>

record monthly_average =
  bucket_name :: string
  avg_year :: int
  avg_month :: int
  avg_size_bytes :: real
  avg_object_count :: real
  data_points :: int

text \<open>
  The database: the two tables, rows in insertion order, and the largest row id that
  \<^verbatim>\<open>bucket_usage\<close> has handed out (\<^verbatim>\<open>AUTOINCREMENT\<close>).
\<close>

record DB =
  bucket_usage :: "BucketUsage list"
  bucket_usage_seq :: "64 word"
  monthly_averages :: "monthly_average list"

datatype json_error = SyntaxError | UnmarshalTypeError

datatype error =
    DriverError
  | BeginFailed
  | QueryFailed
  | ScanFailed
  | IterationFailed
  | DeleteFailed instant
  | RowsAffectedFailed
  | CommitFailed
  | RequestFailed
  | ListBucketsFailed error
  | BucketStatsFailed error
  | DecodeFailed json_error

text \<open>
  The errors of the program: \<open>DriverError\<close> is an error of \<^verbatim>\<open>database/sql\<close> passed on as it
  is, \<open>RequestFailed\<close> one of \<^verbatim>\<open>executeSignedRequest\<close>; the others are the messages the code
  wraps an error in.
\<close>

text \<open>
  Any call into \<^verbatim>\<open>database/sql\<close> can fail. A run is given a fault plan: one flag for
  each call it makes, in order, \<open>True\<close> when that call fails; calls past the end of the
  plan succeed, so the empty plan is the run in which the storage never fails.
\<close>

type_synonym faults = "bool list"

definition driver_call :: "faults \<Rightarrow> bool \<times> faults" where
  "driver_call fs = (case fs of [] \<Rightarrow> (False, []) | f # rest \<Rightarrow> (f, rest))"

text \<open>
  The loop \<^verbatim>\<open>for rows.Next() { rows.Scan(...) }\<close> over a result set: the rows scanned,
  how the loop stopped, and the rest of the plan. \<^verbatim>\<open>Next\<close> is one call for each row and a
  last one that finds the end; when it fails it returns false like the end of the rows,
  and only \<^verbatim>\<open>rows.Err()\<close> tells the two apart.
\<close>

datatype loop_end = Exhausted | NextFailed | ScanError

fun rows_loop :: "'a list \<Rightarrow> faults \<Rightarrow> 'a list \<times> loop_end \<times> faults" where
  "rows_loop [] fs =
     (let (f, fs1) = driver_call fs
      in ([], if f then NextFailed else Exhausted, fs1))"
| "rows_loop (r # rs) fs =
     (let (f, fs1) = driver_call fs
      in if f then ([], NextFailed, fs1)
         else let (g, fs2) = driver_call fs1
              in if g then ([], ScanError, fs2)
                 else let (out, e, fs3) = rows_loop rs fs2
                      in (r # out, e, fs3))"

text \<open>\<^verbatim>\<open>timestamp BETWEEN ? AND ?\<close>, both ends included.\<close>

definition between :: "instant \<Rightarrow> instant \<Rightarrow> instant \<Rightarrow> bool" where
  "between t lo hi = (lo \<le> t \<and> t \<le> hi)"

subsection \<open>StoreBucketUsage and GetBucketUsage\<close>



subsection \<open>CalculateMonthlyAverages\<close>

text \<open>
  \<^verbatim>\<open>SELECT DISTINCT bucket_name\<close>: each name once. SQLite answers the query from the index
  on \<^verbatim>\<open>(bucket_name, timestamp)\<close>, so the names come in the order of the index, which
  compares them byte by byte.
\<close>

definition sql_distinct :: "string list \<Rightarrow> string list" where
  "sql_distinct xs = sort (remdups xs)"

text \<open>
  64-bit floats. Every float that the aggregation handles before its last division holds
  an integer, so those are modelled by integers: \<open>float64_of_int\<close> is the conversion of
  an integer to the nearest float (53 significant bits, ties to the even significand),
  which is also how a sum or a difference of two such floats is rounded. \<open>float64_div\<close> is
  the quotient of two of them, rounded the same way, as a real number; the divisor is a
  count and positive. With integers of at most 127 bits the results stay far from the
  largest float, so overflow to infinity is not modelled; the smallest exponent is.
\<close>

definition round_half_even :: "int \<Rightarrow> int \<Rightarrow> int" where
  "round_half_even num den =
     (let q = num div den; r = num mod den
      in if 2 * r < den \<or> (2 * r = den \<and> even q) then q else q + 1)"

definition float64_of_int :: "int \<Rightarrow> int" where
  "float64_of_int k =
     (let e = bitlen \<bar>k\<bar> - 53
      in if e \<le> 0 then k else sgn k * round_half_even \<bar>k\<bar> (2 ^ nat e) * 2 ^ nat e)"

definition scaled :: "int \<Rightarrow> int \<Rightarrow> int \<Rightarrow> int \<times> int" where
  "scaled a b e = (if 0 \<le> e then (a, b * 2 ^ nat e) else (a * 2 ^ nat (- e), b))"

definition float64_div :: "int \<Rightarrow> int \<Rightarrow> real" where
  "float64_div a b =
     (if a = 0 \<or> b \<le> 0 then 0
      else
        let e0 = bitlen \<bar>a\<bar> - bitlen b - 53;
            (n0, d0) = scaled \<bar>a\<bar> b e0;
            e = max (if 2 ^ 53 * d0 \<le> n0 then e0 + 1 else e0) (- 1074);
            (n, d) = scaled \<bar>a\<bar> b e;
            m = round_half_even n d
        in of_int (sgn a) * (if 0 \<le> e then of_int (m * 2 ^ nat e) else of_int m / of_int (2 ^ nat (- e))))"

text \<open>
  \<^verbatim>\<open>AVG\<close> over a column of integers, as SQLite computes it (\<^verbatim>\<open>sumStep\<close> and \<^verbatim>\<open>avgFinalize\<close>):
  the sum is kept as an \<^verbatim>\<open>int64\<close> as long as it does not overflow; from the first overflow
  on it is a float with an error term (Kahan-Babuska-Neumaier summation, integers of 52
  bits and more added in two parts). The result is the sum, as a float, divided by the
  count, and \<^verbatim>\<open>NULL\<close> when there is no row.
\<close>

record SumCtx =
  rSum :: int
  rErr :: int
  iSum :: int
  cnt :: int
  approx :: bool

definition kahanBabuskaNeumaierStep :: "SumCtx \<Rightarrow> int \<Rightarrow> SumCtx" where
  "kahanBabuskaNeumaierStep p r =
     (let s = rSum p;
          t = float64_of_int (s + r);
          c = (if \<bar>s\<bar> > \<bar>r\<bar> then float64_of_int (float64_of_int (s - t) + r)
               else float64_of_int (float64_of_int (r - t) + s))
      in p\<lparr>rErr := float64_of_int (rErr p + c), rSum := t\<rparr>)"

definition big_int64 :: "int \<Rightarrow> bool" where
  "big_int64 iVal = (iVal \<le> - 4503599627370496 \<or> iVal \<ge> 4503599627370496)"

definition low_bits :: "int \<Rightarrow> int" where
  "low_bits iVal = sgn iVal * (\<bar>iVal\<bar> mod 16384)"

definition kahanBabuskaNeumaierStepInt64 :: "SumCtx \<Rightarrow> int \<Rightarrow> SumCtx" where
  "kahanBabuskaNeumaierStepInt64 p iVal =
     (if big_int64 iVal
      then let iSm = low_bits iVal; iBig = iVal - iSm
           in kahanBabuskaNeumaierStep (kahanBabuskaNeumaierStep p (float64_of_int iBig))
                (float64_of_int iSm)
      else kahanBabuskaNeumaierStep p (float64_of_int iVal))"

definition kahanBabuskaNeumaierInit :: "SumCtx \<Rightarrow> int \<Rightarrow> SumCtx" where
  "kahanBabuskaNeumaierInit p iVal =
     (if big_int64 iVal
      then let iSm = low_bits iVal
           in p\<lparr>rSum := float64_of_int (iVal - iSm), rErr := float64_of_int iSm\<rparr>
      else p\<lparr>rSum := float64_of_int iVal, rErr := 0\<rparr>)"

definition sumStep :: "SumCtx \<Rightarrow> int \<Rightarrow> SumCtx" where
  "sumStep p0 v =
     (let p = p0\<lparr>cnt := cnt p0 + 1\<rparr>
      in if \<not> approx p
         then let x = iSum p + v
              in if - (2 ^ 63) \<le> x \<and> x < 2 ^ 63 then p\<lparr>iSum := x\<rparr>
                 else kahanBabuskaNeumaierStepInt64
                        ((kahanBabuskaNeumaierInit p (iSum p))\<lparr>approx := True\<rparr>) v
         else kahanBabuskaNeumaierStepInt64 p v)"

definition avgFinalize :: "SumCtx \<Rightarrow> real option" where
  "avgFinalize p =
     (if cnt p > 0
      then Some (float64_div
                   (if approx p then float64_of_int (rSum p + rErr p) else float64_of_int (iSum p))
                   (float64_of_int (cnt p)))
      else None)"

definition sql_avg :: "int list \<Rightarrow> real option" where
  "sql_avg xs =
     avgFinalize (foldl sumStep \<lparr>rSum = 0, rErr = 0, iSum = 0, cnt = 0, approx = False\<rparr> xs)"

text \<open>
  \<^verbatim>\<open>INSERT INTO monthly_averages ... ON CONFLICT(bucket_name, year, month) DO UPDATE SET\<close>
  of the three statistics: a row with the key has them overwritten, and a new row is
  appended when there is none.
\<close>

definition has_key :: "string \<Rightarrow> int \<Rightarrow> int \<Rightarrow> monthly_average \<Rightarrow> bool" where
  "has_key bucketName year month a =
     (bucket_name a = bucketName \<and> avg_year a = year \<and> avg_month a = month)"

definition upsert_monthly_average ::
    "monthly_average list \<Rightarrow> string \<Rightarrow> int \<Rightarrow> int \<Rightarrow> real \<Rightarrow> real \<Rightarrow> int \<Rightarrow> monthly_average list" where
  "upsert_monthly_average avgs bucketName year month avgSize avgCount dataPoints =
     (if list_ex (has_key bucketName year month) avgs
      then map (\<lambda>a. if has_key bucketName year month a
                     then a\<lparr>avg_size_bytes := avgSize, avg_object_count := avgCount,
                            data_points := dataPoints\<rparr>
                     else a) avgs
      else avgs @ [\<lparr>bucket_name = bucketName, avg_year = year, avg_month = month,
                     avg_size_bytes = avgSize, avg_object_count = avgCount,
                     data_points = dataPoints\<rparr>])"

text \<open>
  The loop over the buckets: for each, the query of the averages (its rows come from the
  index, in the order of their timestamps; scanning \<^verbatim>\<open>NULL\<close> into a \<^verbatim>\<open>float64\<close> is an
  error) and the upsert. Each statement runs and commits on its own: the function opens no
  transaction.
\<close>

fun average_loop :: "DB \<Rightarrow> int \<Rightarrow> int \<Rightarrow> instant \<Rightarrow> instant \<Rightarrow> string list \<Rightarrow> faults
    \<Rightarrow> DB \<times> error option" where
  "average_loop db year month startDate endDate [] fs = (db, None)"
| "average_loop db year month startDate endDate (bucketName # rest) fs =
     (let (f, fs1) = driver_call fs
      in if f then (db, Some DriverError)
         else
           let rows = sort_key Timestamp
                        (filter (\<lambda>u. BucketName u = bucketName
                                   \<and> between (Timestamp u) startDate endDate) (bucket_usage db))
           in case (sql_avg (map (\<lambda>u. sint (SizeBytes u)) rows),
                    sql_avg (map (\<lambda>u. sint (ObjectCount u)) rows)) of
                (Some avgSize, Some avgCount) \<Rightarrow>
                  let dataPoints = int (length rows);
                      (g, fs2) = driver_call fs1
                  in if g then (db, Some DriverError)
                     else average_loop
                            (db\<lparr>monthly_averages :=
                                  upsert_monthly_average (monthly_averages db) bucketName year month
                                    avgSize avgCount dataPoints\<rparr>)
                            year month startDate endDate rest fs2
              | _ \<Rightarrow> (db, Some DriverError))"

text \<open>
  \<^verbatim>\<open>CalculateMonthlyAverages\<close>. The loop over the bucket names returns on a failed
  \<^verbatim>\<open>Scan\<close>, but \<^verbatim>\<open>rows.Err()\<close> is not asked after it: when \<^verbatim>\<open>Next\<close> fails, the names read so
  far are the buckets of the run.
\<close>

definition CalculateMonthlyAverages :: "DB \<Rightarrow> int \<Rightarrow> int \<Rightarrow> faults \<Rightarrow> DB \<times> error option" where
  "CalculateMonthlyAverages db year month fs =
     (let startDate = time_Date year month 1 0 0 0 0;
          endDate = Add (AddDate startDate 0 1 0) (- Second);
          (f, fs1) = driver_call fs
      in if f then (db, Some DriverError)
         else
           let (buckets, e, fs2) =
                 rows_loop
                   (sql_distinct (map BucketName
                      (filter (\<lambda>u. between (Timestamp u) startDate endDate) (bucket_usage db))))
                   fs1
           in if e = ScanError then (db, Some DriverError)
              else average_loop db year month startDate endDate buckets fs2)"

subsection \<open>PruneOldData\<close>

text \<open>
  \<^verbatim>\<open>DELETE FROM bucket_usage WHERE timestamp >= ? AND timestamp <= ?\<close>: the rows left.
\<close>

definition delete_between :: "BucketUsage list \<Rightarrow> instant \<Rightarrow> instant \<Rightarrow> BucketUsage list" where
  "delete_between rows lo hi = filter (\<lambda>u. \<not> (lo \<le> Timestamp u \<and> Timestamp u \<le> hi)) rows"

text \<open>
  The loop over the completed months, inside the transaction: the table as the
  transaction sees it, the running total, the error that stopped the loop, and the rest
  of the plan.
\<close>

fun delete_loop :: "BucketUsage list \<Rightarrow> instant list \<Rightarrow> int \<Rightarrow> faults
    \<Rightarrow> BucketUsage list \<times> int \<times> error option \<times> faults" where
  "delete_loop rows [] totalDeleted fs = (rows, totalDeleted, None, fs)"
| "delete_loop rows (monthStart # rest) totalDeleted fs =
     (let monthEnd = Add (AddDate monthStart 0 1 0) (- Second);
          (f, fs1) = driver_call fs
      in if f then (rows, 0, Some (DeleteFailed monthStart), fs1)
         else
           let rows' = delete_between rows monthStart monthEnd;
               rowsAffected = int (length rows) - int (length rows');
               (g, fs2) = driver_call fs1
           in if g then (rows', 0, Some RowsAffectedFailed, fs2)
              else delete_loop rows' rest (totalDeleted + rowsAffected) fs2)"

text \<open>
  \<^verbatim>\<open>SELECT DISTINCT year, month FROM monthly_averages ORDER BY year, month\<close>.
\<close>

definition aggregated_months :: "monthly_average list \<Rightarrow> (int \<times> int) list" where
  "aggregated_months avgs = sort (remdups (map (\<lambda>a. (avg_year a, avg_month a)) avgs))"

text \<open>
  The start of the current month, as \<^verbatim>\<open>PruneOldData\<close> computes it: the year and the month
  that the clock reading shows in its own zone, day 1 at 00:00:00 UTC.
\<close>

definition currentMonthStart :: "Time \<Rightarrow> instant" where
  "currentMonthStart now = time_Date (Year now) (Month now) 1 0 0 0 0"

text \<open>
  \<^verbatim>\<open>PruneOldData\<close>, with the clock reading \<open>now\<close> as a parameter. The deferred
  \<^verbatim>\<open>tx.Rollback()\<close> makes every return before a successful commit give back the database
  as it was when the transaction began; a commit that fails leaves nothing written.
\<close>

definition PruneOldData :: "Time \<Rightarrow> DB \<Rightarrow> faults \<Rightarrow> DB \<times> int \<times> error option" where
  "PruneOldData now db fs =
     (let (f, fs1) = driver_call fs
      in if f then (db, 0, Some BeginFailed)
         else
           let (g, fs2) = driver_call fs1
           in if g then (db, 0, Some QueryFailed)
              else
                let (scanned, e, fs3) = rows_loop (aggregated_months (monthly_averages db)) fs2;
                    completedMonths =
                      filter (\<lambda>monthStart. Before monthStart (currentMonthStart now))
                        (map (\<lambda>(year, month). time_Date year month 1 0 0 0 0) scanned)
                in if e = ScanError then (db, 0, Some ScanFailed)
                   else if e = NextFailed then (db, 0, Some IterationFailed)
                   else if completedMonths = [] then (db, 0, None)
                   else
                     case delete_loop (bucket_usage db) completedMonths 0 fs3 of
                       (rows, totalDeleted, Some err, fs4) \<Rightarrow> (db, totalDeleted, Some err)
                     | (rows, totalDeleted, None, fs4) \<Rightarrow>
                         let (h, fs5) = driver_call fs4
                         in if h then (db, 0, Some CommitFailed)
                            else (db\<lparr>bucket_usage := rows\<rparr>, totalDeleted, None))"

text \<open>
  What a run of \<^verbatim>\<open>PruneOldData\<close> is meant to do, to compare the code with: the first
  instants of the completed months that have an aggregate, and the table after the deletes
  of all of them.
\<close>

definition completed_months :: "Time \<Rightarrow> monthly_average list \<Rightarrow> instant list" where
  "completed_months now avgs =
     filter (\<lambda>monthStart. Before monthStart (currentMonthStart now))
       (map (\<lambda>(year, month). time_Date year month 1 0 0 0 0) (aggregated_months avgs))"

definition delete_all :: "BucketUsage list \<Rightarrow> instant list \<Rightarrow> BucketUsage list" where
  "delete_all rows months =
     foldl (\<lambda>rs monthStart. delete_between rs monthStart (Add (AddDate monthStart 0 1 0) (- Second)))
       rows months"

text \<open>
  A month given by its year and month number: its first instant, and its last second.
\<close>

definition month_first :: "int \<Rightarrow> int \<Rightarrow> instant" where
  "month_first year month = time_Date year month 1 0 0 0 0"

definition month_last :: "int \<Rightarrow> int \<Rightarrow> instant" where
  "month_last year month = time_Date year (month + 1) 1 0 0 0 0 - Second"

text \<open>
  A timestamp is prunable when it lies in the window of a month that some row of
  \<^verbatim>\<open>monthly_averages\<close> names, for whatever bucket, and that month starts before the start
  of the current month.
\<close>

definition prunable :: "Time \<Rightarrow> monthly_average list \<Rightarrow> instant \<Rightarrow> bool" where
  "prunable now avgs t =
     (\<exists>a \<in> set avgs.
        month_first (avg_year a) (avg_month a) < currentMonthStart now
        \<and> between t (month_first (avg_year a) (avg_month a)) (month_last (avg_year a) (avg_month a)))"

text \<open>
  To state what \<^verbatim>\<open>CalculateMonthlyAverages\<close> does: the samples of a bucket in the window
  of a month, the float nearest to the arithmetic mean of a list of integers, the
  aggregate row of a bucket (the averages as SQLite gives them), and the table after the
  upserts of a list of buckets.
\<close>

definition in_month :: "int \<Rightarrow> int \<Rightarrow> instant \<Rightarrow> bool" where
  "in_month year month t = between t (month_first year month) (month_last year month)"

definition samples_in_month :: "BucketUsage list \<Rightarrow> string \<Rightarrow> int \<Rightarrow> int \<Rightarrow> BucketUsage list" where
  "samples_in_month rows bucket year month =
     filter (\<lambda>u. BucketName u = bucket \<and> in_month year month (Timestamp u)) rows"


definition month_average :: "BucketUsage list \<Rightarrow> string \<Rightarrow> int \<Rightarrow> int \<Rightarrow> monthly_average" where
  "month_average rows bucket year month =
     \<lparr>bucket_name = bucket, avg_year = year, avg_month = month,
      avg_size_bytes = the (sql_avg (map (\<lambda>u. sint (SizeBytes u))
                         (sort_key Timestamp (samples_in_month rows bucket year month)))),
      avg_object_count = the (sql_avg (map (\<lambda>u. sint (ObjectCount u))
                         (sort_key Timestamp (samples_in_month rows bucket year month)))),
      data_points = int (length (samples_in_month rows bucket year month))\<rparr>"

definition month_buckets :: "BucketUsage list \<Rightarrow> int \<Rightarrow> int \<Rightarrow> string list" where
  "month_buckets rows year month =
     sql_distinct (map BucketName (filter (\<lambda>u. in_month year month (Timestamp u)) rows))"

definition upsert_bucket :: "BucketUsage list \<Rightarrow> int \<Rightarrow> int \<Rightarrow> monthly_average list \<Rightarrow> string
    \<Rightarrow> monthly_average list" where
  "upsert_bucket rows year month avgs bucket =
     upsert_monthly_average avgs bucket year month
       (avg_size_bytes (month_average rows bucket year month))
       (avg_object_count (month_average rows bucket year month))
       (data_points (month_average rows bucket year month))"

definition upsert_buckets :: "BucketUsage list \<Rightarrow> int \<Rightarrow> int \<Rightarrow> monthly_average list \<Rightarrow> string list
    \<Rightarrow> monthly_average list" where
  "upsert_buckets rows year month avgs buckets = foldl (upsert_bucket rows year month) avgs buckets"




section \<open>The admin API client\<close>

text \<open>
  A response body as \<^verbatim>\<open>encoding/json\<close> sees it: \<open>None\<close> when the bytes are not valid JSON,
  else the JSON value. A number written as an integer literal carries its value; one
  written with a fraction or an exponent is kept as its text. The members of an object
  are in the order of the text, repeated names included.
\<close>

datatype json =
    JNull
  | JBool bool
  | JInt int
  | JFloat string
  | JString string
  | JArray "json list"
  | JObject "(string \<times> json) list"

type_synonym body = "json option"

text \<open>
  \<^verbatim>\<open>BucketStats\<close> and \<^verbatim>\<open>Usage\<close>, with the struct of \<^verbatim>\<open>rgw.main\<close>; all fields zero before
  decoding.
\<close>

record RgwMainStats =
  SizeKB :: "64 word"
  SizeKBActual :: "64 word"
  NumObjects :: "64 word"

record Usage =
  RgwMain :: RgwMainStats

record BucketStats =
  Bucket :: string
  Usage :: Usage
  OwnerID :: string
  OwnerName :: string
  Zonegroup :: string
  PlacementID :: string
  Created :: string

definition zero_BucketStats :: BucketStats where
  "zero_BucketStats =
     \<lparr>Bucket = [], Usage = \<lparr>RgwMain = \<lparr>SizeKB = 0, SizeKBActual = 0, NumObjects = 0\<rparr>\<rparr>,
      OwnerID = [], OwnerName = [], Zonegroup = [], PlacementID = [], Created = []\<rparr>"

text \<open>
  \<^verbatim>\<open>json.Unmarshal\<close> matches a member to the field whose name equals it under Unicode case
  folding. The field names here are ASCII, so folding matters on ASCII letters and on the
  two other characters that fold to one: the Kelvin sign (bytes E2 84 AA) to K and the
  long s (bytes C5 BF) to S.
\<close>

definition toUpper :: "char \<Rightarrow> char" where
  "toUpper c =
     (case map_of (zip ''abcdefghijklmnopqrstuvwxyz'' ''ABCDEFGHIJKLMNOPQRSTUVWXYZ'') c of
        Some u \<Rightarrow> u
      | None \<Rightarrow> c)"

fun foldName :: "string \<Rightarrow> string" where
  "foldName (a # b # c # cs) =
     (if a = CHR 0xE2 \<and> b = CHR 0x84 \<and> c = CHR 0xAA then CHR ''K'' # foldName cs
      else if a = CHR 0xC5 \<and> b = CHR 0xBF then CHR ''S'' # foldName (c # cs)
      else toUpper a # foldName (b # c # cs))"
| "foldName [a, b] =
     (if a = CHR 0xC5 \<and> b = CHR 0xBF then [CHR ''S''] else toUpper a # foldName [b])"
| "foldName [a] = [toUpper a]"
| "foldName [] = []"

definition names :: "string \<Rightarrow> string \<Rightarrow> bool" where
  "names key field = (foldName key = foldName field)"

text \<open>
  Decoding a JSON value into a field that holds \<open>cur\<close>; \<open>None\<close> is an
  \<^verbatim>\<open>UnmarshalTypeError\<close>. \<^verbatim>\<open>null\<close> leaves any field as it is. An \<^verbatim>\<open>int64\<close> takes an integer
  literal in its range, a string takes a string, a struct takes an object, whose members
  are decoded in order; members that name no field are skipped.
\<close>

definition decode_string :: "string \<Rightarrow> json \<Rightarrow> string option" where
  "decode_string cur v = (case v of JNull \<Rightarrow> Some cur | JString s \<Rightarrow> Some s | _ \<Rightarrow> None)"

definition decode_int64 :: "64 word \<Rightarrow> json \<Rightarrow> 64 word option" where
  "decode_int64 cur v =
     (case v of
        JNull \<Rightarrow> Some cur
      | JInt n \<Rightarrow> if - (2 ^ 63) \<le> n \<and> n < 2 ^ 63 then Some (word_of_int n) else None
      | _ \<Rightarrow> None)"

fun decode_members :: "('a \<Rightarrow> string \<Rightarrow> json \<Rightarrow> 'a option) \<Rightarrow> 'a \<Rightarrow> (string \<times> json) list \<Rightarrow> 'a option" where
  "decode_members f cur [] = Some cur"
| "decode_members f cur ((k, v) # kvs) =
     (case f cur k v of None \<Rightarrow> None | Some cur' \<Rightarrow> decode_members f cur' kvs)"

definition decode_struct :: "('a \<Rightarrow> string \<Rightarrow> json \<Rightarrow> 'a option) \<Rightarrow> 'a \<Rightarrow> json \<Rightarrow> 'a option" where
  "decode_struct f cur v =
     (case v of JNull \<Rightarrow> Some cur | JObject kvs \<Rightarrow> decode_members f cur kvs | _ \<Rightarrow> None)"

definition RgwMain_member :: "RgwMainStats \<Rightarrow> string \<Rightarrow> json \<Rightarrow> RgwMainStats option" where
  "RgwMain_member cur k v =
     (if names k ''size_kb'' then map_option (\<lambda>x. cur\<lparr>SizeKB := x\<rparr>) (decode_int64 (SizeKB cur) v)
      else if names k ''size_kb_actual''
        then map_option (\<lambda>x. cur\<lparr>SizeKBActual := x\<rparr>) (decode_int64 (SizeKBActual cur) v)
      else if names k ''num_objects''
        then map_option (\<lambda>x. cur\<lparr>NumObjects := x\<rparr>) (decode_int64 (NumObjects cur) v)
      else Some cur)"

definition Usage_member :: "Usage \<Rightarrow> string \<Rightarrow> json \<Rightarrow> Usage option" where
  "Usage_member cur k v =
     (if names k ''rgw.main''
        then map_option (\<lambda>x. cur\<lparr>RgwMain := x\<rparr>) (decode_struct RgwMain_member (RgwMain cur) v)
      else Some cur)"

definition BucketStats_member :: "BucketStats \<Rightarrow> string \<Rightarrow> json \<Rightarrow> BucketStats option" where
  "BucketStats_member cur k v =
     (if names k ''bucket'' then map_option (\<lambda>x. cur\<lparr>Bucket := x\<rparr>) (decode_string (Bucket cur) v)
      else if names k ''usage''
        then map_option (\<lambda>x. cur\<lparr>Usage := x\<rparr>) (decode_struct Usage_member (Usage cur) v)
      else if names k ''id'' then map_option (\<lambda>x. cur\<lparr>OwnerID := x\<rparr>) (decode_string (OwnerID cur) v)
      else if names k ''owner''
        then map_option (\<lambda>x. cur\<lparr>OwnerName := x\<rparr>) (decode_string (OwnerName cur) v)
      else if names k ''zonegroup''
        then map_option (\<lambda>x. cur\<lparr>Zonegroup := x\<rparr>) (decode_string (Zonegroup cur) v)
      else if names k ''placement_rule''
        then map_option (\<lambda>x. cur\<lparr>PlacementID := x\<rparr>) (decode_string (PlacementID cur) v)
      else if names k ''creation_time''
        then map_option (\<lambda>x. cur\<lparr>Created := x\<rparr>) (decode_string (Created cur) v)
      else Some cur)"

text \<open>\<^verbatim>\<open>json.Unmarshal(respBody, &bucketStats)\<close>, into the zero value.\<close>

definition Unmarshal_BucketStats :: "body \<Rightarrow> json_error + BucketStats" where
  "Unmarshal_BucketStats respBody =
     (case respBody of
        None \<Rightarrow> Inl SyntaxError
      | Some v \<Rightarrow>
          (case decode_struct BucketStats_member zero_BucketStats v of
             None \<Rightarrow> Inl UnmarshalTypeError
           | Some st \<Rightarrow> Inr st))"

text \<open>
  \<^verbatim>\<open>json.Unmarshal(respBody, &bucketList)\<close> into a nil \<^verbatim>\<open>[]string\<close>: \<^verbatim>\<open>null\<close> leaves it nil,
  an array gives its elements, a \<^verbatim>\<open>null\<close> element the empty string.
\<close>

definition Unmarshal_strings :: "body \<Rightarrow> json_error + string list" where
  "Unmarshal_strings respBody =
     (case respBody of
        None \<Rightarrow> Inl SyntaxError
      | Some JNull \<Rightarrow> Inr []
      | Some (JArray vs) \<Rightarrow>
          (case those (map (decode_string []) vs) of
             None \<Rightarrow> Inl UnmarshalTypeError
           | Some bs \<Rightarrow> Inr bs)
      | Some _ \<Rightarrow> Inl UnmarshalTypeError)"

text \<open>
  The outcome of \<^verbatim>\<open>executeSignedRequest\<close> (signing, the HTTP exchange, the status check) is
  a parameter: an error, or the body of a response with status 200.
\<close>

type_synonym response = "error + body"

definition GetBuckets :: "response \<Rightarrow> error + string list" where
  "GetBuckets resp =
     (case resp of
        Inl err \<Rightarrow> Inl (ListBucketsFailed err)
      | Inr respBody \<Rightarrow>
          (case Unmarshal_strings respBody of
             Inl err \<Rightarrow> Inl (DecodeFailed err)
           | Inr bucketList \<Rightarrow> Inr bucketList))"

text \<open>\<^verbatim>\<open>t.UTC()\<close>: the same instant, in UTC.\<close>

definition UTC :: "Time \<Rightarrow> Time" where
  "UTC t = t\<lparr>zoneOffset := 0\<rparr>"

text \<open>
  The method \<^verbatim>\<open>GetBucketUsage\<close> of \<^verbatim>\<open>S3Client\<close>: \<open>resp\<close> is the outcome of the request for
  the statistics of the bucket, \<open>now\<close> what \<^verbatim>\<open>time.Now()\<close> reads after decoding. The product
  is a product of \<^verbatim>\<open>int64\<close>: it wraps around.
\<close>

definition S3Client_GetBucketUsage :: "response \<Rightarrow> Time \<Rightarrow> string \<Rightarrow> error + BucketUsage" where
  "S3Client_GetBucketUsage resp now bucketName =
     (case resp of
        Inl err \<Rightarrow> Inl (BucketStatsFailed err)
      | Inr respBody \<Rightarrow>
          (case Unmarshal_BucketStats respBody of
             Inl err \<Rightarrow> Inl (DecodeFailed err)
           | Inr bucketStats \<Rightarrow>
               Inr \<lparr>ID = 0, BucketName = bucketName,
                    SizeBytes = SizeKB (RgwMain (Usage bucketStats)) * 1024,
                    ObjectCount = NumObjects (RgwMain (Usage bucketStats)),
                    Timestamp = unixNano (UTC now)\<rparr>))"

text \<open>
  A run of \<^verbatim>\<open>GetAllBucketsUsage\<close> sees the outcome of the listing request and, for its
  \<open>i\<close>-th statistics request (from 0), the outcome for the bucket asked and the reading of
  the clock.
\<close>

record admin_api =
  list_response :: response
  stats_response :: "nat \<Rightarrow> string \<Rightarrow> response"
  clock :: "nat \<Rightarrow> Time"

fun usage_loop :: "admin_api \<Rightarrow> nat \<Rightarrow> string list \<Rightarrow> BucketUsage list" where
  "usage_loop api i [] = []"
| "usage_loop api i (bucketName # rest) =
     (case S3Client_GetBucketUsage (stats_response api i bucketName) (clock api i) bucketName of
        Inl err \<Rightarrow> usage_loop api (Suc i) rest
      | Inr usage \<Rightarrow> usage # usage_loop api (Suc i) rest)"

definition GetAllBucketsUsage :: "admin_api \<Rightarrow> BucketUsage list \<times> error option" where
  "GetAllBucketsUsage api =
     (case GetBuckets (list_response api) of
        Inl err \<Rightarrow> ([], Some err)
      | Inr buckets \<Rightarrow> (usage_loop api 0 buckets, None))"

text \<open>
  To state what the client does: the outcome of the \<open>i\<close>-th statistics request of a run,
  and the values that a string field takes.
\<close>

definition fetch :: "admin_api \<Rightarrow> nat \<times> string \<Rightarrow> error + BucketUsage" where
  "fetch api = (\<lambda>(i, bucketName).
     S3Client_GetBucketUsage (stats_response api i bucketName) (clock api i) bucketName)"

definition string_field :: "string \<Rightarrow> bool" where
  "string_field k =
     (names k ''bucket'' \<or> names k ''id'' \<or> names k ''owner'' \<or> names k ''zonegroup''
      \<or> names k ''placement_rule'' \<or> names k ''creation_time'')"

definition string_or_null :: "json \<Rightarrow> bool" where
  "string_or_null v = (case v of JNull \<Rightarrow> True | JString s \<Rightarrow> True | _ \<Rightarrow> False)"

text \<open>
  What each field takes: a string field a string, a counter an integer literal within
  \<^verbatim>\<open>int64\<close>, \<^verbatim>\<open>rgw.main\<close>, \<^verbatim>\<open>usage\<close> and the whole body an object whose members that name
  a field hold what the field takes; and \<^verbatim>\<open>null\<close> everywhere. A body is well typed for
  \<^verbatim>\<open>BucketStats\<close> when this holds of it.
\<close>

definition counter_field :: "string \<Rightarrow> bool" where
  "counter_field k = (names k ''size_kb'' \<or> names k ''size_kb_actual'' \<or> names k ''num_objects'')"

definition int64_or_null :: "json \<Rightarrow> bool" where
  "int64_or_null v =
     (case v of JNull \<Rightarrow> True | JInt n \<Rightarrow> - (2 ^ 63) \<le> n \<and> n < 2 ^ 63 | _ \<Rightarrow> False)"

definition well_typed_main :: "json \<Rightarrow> bool" where
  "well_typed_main v =
     (case v of
        JNull \<Rightarrow> True
      | JObject kvs \<Rightarrow> list_all (\<lambda>(k, x). counter_field k \<longrightarrow> int64_or_null x) kvs
      | _ \<Rightarrow> False)"

definition well_typed_usage :: "json \<Rightarrow> bool" where
  "well_typed_usage v =
     (case v of
        JNull \<Rightarrow> True
      | JObject kvs \<Rightarrow> list_all (\<lambda>(k, x). names k ''rgw.main'' \<longrightarrow> well_typed_main x) kvs
      | _ \<Rightarrow> False)"

definition well_typed_stats :: "json \<Rightarrow> bool" where
  "well_typed_stats v =
     (case v of
        JNull \<Rightarrow> True
      | JObject kvs \<Rightarrow>
          list_all (\<lambda>(k, x). (string_field k \<longrightarrow> string_or_null x)
                            \<and> (names k ''usage'' \<longrightarrow> well_typed_usage x)) kvs
      | _ \<Rightarrow> False)"

text \<open>
  A body reports no counts when no member reaches \<^verbatim>\<open>size_kb\<close> or \<^verbatim>\<open>num_objects\<close> with
  anything but \<^verbatim>\<open>null\<close>: the usage object is missing, or \<^verbatim>\<open>rgw.main\<close> in it, or the two
  counters in that.
\<close>

definition no_counts_main :: "json \<Rightarrow> bool" where
  "no_counts_main v =
     (case v of
        JObject kvs \<Rightarrow>
          list_all (\<lambda>(k, x). names k ''size_kb'' \<or> names k ''num_objects'' \<longrightarrow> x = JNull) kvs
      | _ \<Rightarrow> True)"

definition no_counts_usage :: "json \<Rightarrow> bool" where
  "no_counts_usage v =
     (case v of
        JObject kvs \<Rightarrow> list_all (\<lambda>(k, x). names k ''rgw.main'' \<longrightarrow> no_counts_main x) kvs
      | _ \<Rightarrow> True)"

definition no_counts :: "json \<Rightarrow> bool" where
  "no_counts v =
     (case v of
        JObject kvs \<Rightarrow> list_all (\<lambda>(k, x). names k ''usage'' \<longrightarrow> no_counts_usage x) kvs
      | _ \<Rightarrow> True)"

definition zero_usage :: "string \<Rightarrow> Time \<Rightarrow> BucketUsage" where
  "zero_usage bucketName now =
     \<lparr>ID = 0, BucketName = bucketName, SizeBytes = 0, ObjectCount = 0, Timestamp = unixNano now\<rparr>"

section \<open>Example data\<close>

text \<open>
  Bucket b1 sampled on 5, 10 and 20 January 2025 (100, 200 and 300 bytes), bucket b2 on
  15 December 2024 and on 20 February 2025; aggregates for b1 in December 2024 and
  January 2025. The clock reads 21 February 2025 in a zone one hour east of UTC.
\<close>

definition sample_dec :: BucketUsage where
  "sample_dec = \<lparr>ID = 1, BucketName = ''b2'', SizeBytes = 50, ObjectCount = 5,
     Timestamp = time_Date 2024 12 15 12 0 0 0\<rparr>"

definition sample_jan5 :: BucketUsage where
  "sample_jan5 = \<lparr>ID = 2, BucketName = ''b1'', SizeBytes = 100, ObjectCount = 1,
     Timestamp = time_Date 2025 1 5 0 0 0 0\<rparr>"

definition sample_jan10 :: BucketUsage where
  "sample_jan10 = \<lparr>ID = 3, BucketName = ''b1'', SizeBytes = 200, ObjectCount = 2,
     Timestamp = time_Date 2025 1 10 0 0 0 0\<rparr>"

definition sample_jan20 :: BucketUsage where
  "sample_jan20 = \<lparr>ID = 4, BucketName = ''b1'', SizeBytes = 300, ObjectCount = 6,
     Timestamp = time_Date 2025 1 20 0 0 0 0\<rparr>"

definition sample_feb :: BucketUsage where
  "sample_feb = \<lparr>ID = 5, BucketName = ''b2'', SizeBytes = 700, ObjectCount = 7,
     Timestamp = time_Date 2025 2 20 8 30 0 0\<rparr>"

definition avg_dec :: monthly_average where
  "avg_dec = \<lparr>bucket_name = ''b1'', avg_year = 2024, avg_month = 12,
     avg_size_bytes = 80, avg_object_count = 1, data_points = 4\<rparr>"

definition avg_jan :: monthly_average where
  "avg_jan = \<lparr>bucket_name = ''b1'', avg_year = 2025, avg_month = 1,
     avg_size_bytes = 200, avg_object_count = 3, data_points = 3\<rparr>"

definition avg_feb :: monthly_average where
  "avg_feb = \<lparr>bucket_name = ''b2'', avg_year = 2025, avg_month = 2,
     avg_size_bytes = 700, avg_object_count = 7, data_points = 1\<rparr>"

definition example_db :: DB where
  "example_db = \<lparr>bucket_usage = [sample_dec, sample_jan5, sample_jan10, sample_jan20, sample_feb],
     bucket_usage_seq = 5, monthly_averages = [avg_dec, avg_jan]\<rparr>"

text \<open>
  January 2025 with two buckets, b2 sampled first and b1 after it; the table of aggregates
  has a row for December and an older row for b1 in January, computed when b1 had one
  sample.
\<close>

definition stale_jan :: monthly_average where
  "stale_jan = \<lparr>bucket_name = ''b1'', avg_year = 2025, avg_month = 1,
     avg_size_bytes = 100, avg_object_count = 1, data_points = 1\<rparr>"

definition sample_jan3 :: BucketUsage where
  "sample_jan3 = \<lparr>ID = 1, BucketName = ''b2'', SizeBytes = 4096, ObjectCount = 10,
     Timestamp = time_Date 2025 1 3 6 0 0 0\<rparr>"

definition january_db :: DB where
  "january_db = \<lparr>bucket_usage = [sample_jan3, sample_jan5, sample_jan10, sample_jan20],
     bucket_usage_seq = 4, monthly_averages = [avg_dec, stale_jan]\<rparr>"



text \<open>
  Responses of the admin API: the statistics of a bucket of 12 KiB and 3 objects, one that
  reports 2^53 KiB, and a run over two listed buckets in which the second request fails.
\<close>

definition stats_body :: body where
  "stats_body = Some (JObject
     [(''bucket'', JString ''b1''), (''id'', JString ''owner1''), (''owner'', JString ''Owner''),
      (''creation_time'', JString ''2024-01-01T00:00:00.000000Z''),
      (''usage'', JObject [(''rgw.main'', JObject
         [(''size_kb'', JInt 12), (''size_kb_actual'', JInt 16), (''num_objects'', JInt 3)])])])"

definition huge_body :: body where
  "huge_body = Some (JObject
     [(''usage'', JObject [(''rgw.main'', JObject
         [(''size_kb'', JInt 9007199254740992), (''num_objects'', JInt 3)])])])"

definition example_api :: admin_api where
  "example_api =
     \<lparr>list_response = Inr (Some (JArray [JString ''b1'', JString ''b2''])),
      stats_response = (\<lambda>i bucketName. if bucketName = ''b1'' then Inr stats_body else Inl RequestFailed),
      clock = (\<lambda>i. \<lparr>unixNano = time_Date 2025 2 21 9 0 (int i) 0, zoneOffset = 3600\<rparr>)\<rparr>"

definition example_now :: Time where
  "example_now = \<lparr>unixNano = time_Date 2025 2 21 9 0 0 0, zoneOffset = 3600\<rparr>"

text \<open>
  The night after February: the clock reads 1 March 2025, 02:00 in a zone five hours east
  of UTC, which is 28 February 21:00 UTC. February has an aggregate; one sample was taken
  half an hour before the reading.
\<close>

definition march_now :: Time where
  "march_now = \<lparr>unixNano = time_Date 2025 2 28 21 0 0 0, zoneOffset = 18000\<rparr>"

definition sample_late :: BucketUsage where
  "sample_late = \<lparr>ID = 7, BucketName = ''b1'', SizeBytes = 900, ObjectCount = 9,
     Timestamp = time_Date 2025 2 28 20 30 0 0\<rparr>"

definition march_db :: DB where
  "march_db = \<lparr>bucket_usage = [sample_late], bucket_usage_seq = 7, monthly_averages = [avg_feb]\<rparr>"

section \<open>The calendar\<close>

text \<open>
  A year is written with the digits of its predecessor in the cycles of 400, 100 and 4
  years; on the digits the day count and its inverse are linear arithmetic.
\<close>

lemma div_100_bounds:
  fixes x :: int
  assumes "0 \<le> x" "x < 400"
  shows "0 \<le> x div 100 \<and> x div 100 \<le> 3 \<and> 0 \<le> x - 100 * (x div 100) \<and> x - 100 * (x div 100) < 100"
  using assms by arith

lemma div_4_bounds:
  fixes x :: int
  assumes "0 \<le> x" "x < 100"
  shows "0 \<le> x div 4 \<and> x div 4 \<le> 24 \<and> 0 \<le> x - 4 * (x div 4) \<and> x - 4 * (x div 4) \<le> 3"
  using assms by arith

lemma mod_400_bounds:
  fixes Y :: int
  shows "0 \<le> Y - 400 * (Y div 400) \<and> Y - 400 * (Y div 400) < 400"
  by arith

lemma year_mod_4: "(400 * a + 100 * b + 4 * c + e + 1) mod 4 = (e + 1) mod (4::int)"
proof -
  have "400 * a + 100 * b + 4 * c + e + 1 = 4 * (100 * a + 25 * b + c) + (e + 1)" by simp
  then show ?thesis by (simp only: mod_mult_self4)
qed

lemma year_mod_100: "(400 * a + 100 * b + 4 * c + e + 1) mod 100 = (4 * c + e + 1) mod (100::int)"
proof -
  have "400 * a + 100 * b + 4 * c + e + 1 = 100 * (4 * a + b) + (4 * c + e + 1)" by simp
  then show ?thesis by (simp only: mod_mult_self4)
qed

lemma year_mod_400: "(400 * a + 100 * b + 4 * c + e + 1) mod 400 = (100 * b + 4 * c + e + 1) mod (400::int)"
proof -
  have "400 * a + 100 * b + 4 * c + e + 1 = 400 * a + (100 * b + 4 * c + e + 1)" by simp
  then show ?thesis by (simp only: mod_mult_self4)
qed

lemma mod_zero_top:
  fixes x n :: int
  assumes "1 \<le> x" "x \<le> n"
  shows "x mod n = 0 \<longleftrightarrow> x = n"
proof (cases "x = n")
  case True
  then show ?thesis by simp
next
  case False
  with assms have "x mod n = x" by simp
  with assms False show ?thesis by simp
qed

lemma isLeap_digits:
  fixes a b c e :: int
  assumes "0 \<le> b" "b \<le> 3" "0 \<le> c" "c \<le> 24" "0 \<le> e" "e \<le> 3"
  shows "isLeap (400 * a + 100 * b + 4 * c + e + 1) \<longleftrightarrow> e = 3 \<and> (c \<noteq> 24 \<or> b = 3)"
proof -
  have 1: "(e + 1) mod 4 = 0 \<longleftrightarrow> e = 3" using assms by arith
  have 2: "(4 * c + e + 1) mod 100 = 0 \<longleftrightarrow> c = 24 \<and> e = 3" using assms by arith
  have "(100 * b + 4 * c + e + 1) mod 400 = 0 \<longleftrightarrow> 100 * b + 4 * c + e + 1 = 400"
    using assms by (intro mod_zero_top) linarith+
  also have "\<dots> \<longleftrightarrow> b = 3 \<and> c = 24 \<and> e = 3" using assms by linarith
  finally have 3: "(100 * b + 4 * c + e + 1) mod 400 = 0 \<longleftrightarrow> b = 3 \<and> c = 24 \<and> e = 3" .
  show ?thesis unfolding isLeap_def year_mod_4 year_mod_100 year_mod_400 1 2 3 by blast
qed

lemma daysSinceEpoch_digits:
  fixes a b c e :: int
  assumes "0 \<le> b" "b \<le> 3" "0 \<le> c" "c \<le> 24" "0 \<le> e" "e \<le> 3"
  shows "daysSinceEpoch (400 * a + 100 * b + 4 * c + e + 1) = 146097 * a + 36524 * b + 1461 * c + 365 * e"
proof -
  define Y where "Y = 400 * a + 100 * b + 4 * c + e"
  have a: "Y div 400 = a"
    unfolding Y_def using assms by (intro int_div_pos_eq [where r = "100 * b + 4 * c + e"]) linarith+
  have y1: "Y - 400 * a = 100 * b + 4 * c + e" by (simp add: Y_def)
  have b: "(100 * b + 4 * c + e) div 100 = b"
    using assms by (intro int_div_pos_eq [where r = "4 * c + e"]) linarith+
  have y2: "100 * b + 4 * c + e - 100 * b = 4 * c + e" by simp
  have c: "(4 * c + e) div 4 = c"
    using assms by (intro int_div_pos_eq [where r = "e"]) linarith+
  have y3: "4 * c + e - 4 * c = e" by simp
  have "daysSinceEpoch (Y + 1) = 146097 * a + 36524 * b + 1461 * c + 365 * e"
    unfolding daysSinceEpoch_def Let_def add_diff_cancel_right' a y1 b y2 c y3 ..
  then show ?thesis by (simp add: Y_def)
qed


lemma absYear_digits:
  fixes a b c e yd :: int
  assumes dg: "0 \<le> b" "b \<le> 3" "0 \<le> c" "c \<le> 24" "0 \<le> e" "e \<le> 3"
    and yd: "0 \<le> yd" "yd \<le> 365" "yd = 365 \<Longrightarrow> e = 3 \<and> (c \<noteq> 24 \<or> b = 3)"
  shows "absYear (146097 * a + 36524 * b + 1461 * c + 365 * e + yd)
           = (400 * a + 100 * b + 4 * c + e + 1, yd)"
proof -
  define T where "T = 365 * e + yd"
  define S where "S = 1461 * c + T"
  define R where "R = 36524 * b + S"
  define D where "D = 146097 * a + R"
  have T: "0 \<le> T" "T < 1461" using dg yd unfolding T_def by linarith+
  have S: "0 \<le> S" "S \<le> 36524" "S = 36524 \<Longrightarrow> b = 3"
    using dg yd T unfolding S_def T_def by linarith+
  have R: "0 \<le> R" "R < 146097" using dg S unfolding R_def by linarith+
  have n400: "D div 146097 = a"
    using R by (intro int_div_pos_eq [where r = R]) (simp_all add: D_def)
  have d1: "D - 146097 * a = R" by (simp add: D_def)
  have n100: "R div 36524 - R div 36524 div 4 = b"
  proof (cases "S = 36524")
    case True
    with S have "R = 36524 * 4" by (simp add: R_def)
    then have "R div 36524 = 4" by simp
    with True S show ?thesis by simp
  next
    case False
    with S have "S < 36524" by simp
    with S have "R div 36524 = b"
      by (intro int_div_pos_eq [where r = S]) (simp_all add: R_def)
    moreover from dg have "b div 4 = 0" by simp
    ultimately show ?thesis by simp
  qed
  have d2: "R - 36524 * b = S" by (simp add: R_def)
  have n4: "S div 1461 = c"
    using T by (intro int_div_pos_eq [where r = T]) (simp_all add: S_def)
  have d3: "S - 1461 * c = T" by (simp add: S_def)
  have n1: "T div 365 - T div 365 div 4 = e"
  proof (cases "yd = 365")
    case True
    with yd have "T = 365 * 4" by (simp add: T_def)
    then have "T div 365 = 4" by simp
    with True yd show ?thesis by simp
  next
    case False
    with yd have "yd < 365" by simp
    with yd have "T div 365 = e"
      by (intro int_div_pos_eq [where r = yd]) (simp_all add: T_def)
    moreover from dg have "e div 4 = 0" by simp
    ultimately show ?thesis by simp
  qed
  have d4: "T - 365 * e = yd" by (simp add: T_def)
  have "absYear D = (400 * a + 100 * b + 4 * c + e + 1, yd)"
    unfolding absYear_def Let_def n400 d1 n100 d2 n4 d3 n1 d4 ..
  then show ?thesis by (simp add: D_def R_def S_def T_def add.assoc)
qed


lemma year_digits:
  fixes y :: int
  obtains a b c e where "0 \<le> b" "b \<le> 3" "0 \<le> c" "c \<le> 24" "0 \<le> e" "e \<le> 3"
    "y = 400 * a + 100 * b + 4 * c + e + 1"
proof -
  define a where "a = (y - 1) div 400"
  define x where "x = (y - 1) - 400 * a"
  define b where "b = x div 100"
  define z where "z = x - 100 * b"
  define c where "c = z div 4"
  define e where "e = z - 4 * c"
  have x: "0 \<le> x \<and> x < 400" unfolding x_def a_def by (rule mod_400_bounds)
  then have b: "0 \<le> b \<and> b \<le> 3 \<and> 0 \<le> z \<and> z < 100"
    unfolding z_def b_def by (intro div_100_bounds) simp_all
  then have c: "0 \<le> c \<and> c \<le> 24 \<and> 0 \<le> e \<and> e \<le> 3"
    unfolding e_def c_def by (intro div_4_bounds) simp_all
  have "y = 400 * a + 100 * b + 4 * c + e + 1"
    by (simp add: e_def z_def x_def)
  with b c show thesis by (intro that [of b c e a]) simp_all
qed

lemma absYear_daysSinceEpoch:
  assumes "0 \<le> yd" "yd < (if isLeap y then 366 else 365)"
  shows "absYear (daysSinceEpoch y + yd) = (y, yd)"
proof -
  obtain a b c e where dg: "0 \<le> b" "b \<le> 3" "0 \<le> c" "c \<le> 24" "0 \<le> e" "e \<le> 3"
    and y: "y = 400 * a + 100 * b + 4 * c + e + 1"
    by (rule year_digits)
  have leap: "isLeap y \<longleftrightarrow> e = 3 \<and> (c \<noteq> 24 \<or> b = 3)"
    unfolding y using dg by (rule isLeap_digits)
  have "yd \<le> 365" using assms by (simp split: if_splits)
  moreover have "yd = 365 \<Longrightarrow> e = 3 \<and> (c \<noteq> 24 \<or> b = 3)"
    using assms leap by (simp split: if_splits)
  ultimately have "absYear (146097 * a + 36524 * b + 1461 * c + 365 * e + yd)
           = (400 * a + 100 * b + 4 * c + e + 1, yd)"
    using dg assms(1) by (intro absYear_digits) simp_all
  then show ?thesis
    unfolding y daysSinceEpoch_digits [OF dg] .
qed

lemma daysSinceEpoch_next:
  "daysSinceEpoch (y + 1) = daysSinceEpoch y + (if isLeap y then 366 else 365)"
proof -
  obtain a b c e where dg: "0 \<le> b" "b \<le> 3" "0 \<le> c" "c \<le> 24" "0 \<le> e" "e \<le> 3"
    and y: "y = 400 * a + 100 * b + 4 * c + e + 1"
    by (rule year_digits)
  have leap: "isLeap y \<longleftrightarrow> e = 3 \<and> (c \<noteq> 24 \<or> b = 3)"
    unfolding y using dg by (rule isLeap_digits)
  have cur: "daysSinceEpoch y = 146097 * a + 36524 * b + 1461 * c + 365 * e"
    unfolding y using dg by (rule daysSinceEpoch_digits)
  consider "e < 3" | "e = 3" "c < 24" | "e = 3" "c = 24" "b < 3" | "e = 3" "c = 24" "b = 3"
    using dg by linarith
  then show ?thesis
  proof cases
    case 1
    have "daysSinceEpoch (400 * a + 100 * b + 4 * c + (e + 1) + 1)
            = 146097 * a + 36524 * b + 1461 * c + 365 * (e + 1)"
      using dg 1 by (intro daysSinceEpoch_digits) simp_all
    moreover have "y + 1 = 400 * a + 100 * b + 4 * c + (e + 1) + 1" by (simp add: y)
    ultimately show ?thesis using 1 leap cur by simp
  next
    case 2
    have "daysSinceEpoch (400 * a + 100 * b + 4 * (c + 1) + 0 + 1)
            = 146097 * a + 36524 * b + 1461 * (c + 1) + 365 * 0"
      using dg 2 by (intro daysSinceEpoch_digits) simp_all
    moreover have "y + 1 = 400 * a + 100 * b + 4 * (c + 1) + 0 + 1" by (simp add: y 2)
    ultimately show ?thesis using 2 leap cur by simp
  next
    case 3
    have "daysSinceEpoch (400 * a + 100 * (b + 1) + 4 * 0 + 0 + 1)
            = 146097 * a + 36524 * (b + 1) + 1461 * 0 + 365 * 0"
      using dg 3 by (intro daysSinceEpoch_digits) simp_all
    moreover have "y + 1 = 400 * a + 100 * (b + 1) + 4 * 0 + 0 + 1" by (simp add: y 3)
    ultimately show ?thesis using 3 leap cur by simp
  next
    case 4
    have "daysSinceEpoch (400 * (a + 1) + 100 * 0 + 4 * 0 + 0 + 1)
            = 146097 * (a + 1) + 36524 * 0 + 1461 * 0 + 365 * 0"
      by (intro daysSinceEpoch_digits) simp_all
    moreover have "y + 1 = 400 * (a + 1) + 100 * 0 + 4 * 0 + 0 + 1" by (simp add: y 4)
    ultimately show ?thesis using 4 leap cur by simp
  qed
qed


lemma month_cases:
  fixes m :: int
  assumes "0 \<le> m" "m < 12"
  shows "m = 0 \<or> m = 1 \<or> m = 2 \<or> m = 3 \<or> m = 4 \<or> m = 5 \<or> m = 6 \<or> m = 7 \<or> m = 8
         \<or> m = 9 \<or> m = 10 \<or> m = 11"
  using assms by presburger

lemma first_of_month:
  fixes m :: int
  assumes "0 \<le> m" "m < 12" "yd = daysBefore ! nat m + (if leap \<and> m \<ge> 2 then 1 else 0)"
  shows "0 \<le> yd \<and> yd < (if leap then 366 else 365) \<and> monthDay leap yd = (m + 1, 1)"
  using month_cases [OF assms(1,2)] unfolding assms(3)
  by (elim disjE) (simp_all add: daysBefore_def monthDay_def)

lemma time_date_first:
  fixes m :: int
  assumes "0 \<le> m" "m < 12"
  shows "time_date (time_Date y (m + 1) 1 0 0 0 0) = (y, m + 1, 1)"
proof -
  define yd where "yd = daysBefore ! nat m + (if isLeap y \<and> m \<ge> 2 then 1 else 0)"
  have yd: "0 \<le> yd \<and> yd < (if isLeap y then 366 else 365) \<and> monthDay (isLeap y) yd = (m + 1, 1)"
    using assms yd_def by (rule first_of_month)
  have m: "m mod 12 = m" "m div 12 = 0" using assms by simp_all
  have "time_Date y (m + 1) 1 0 0 0 0 = (daysSinceEpoch y + yd - unixEpochDays) * nanosPerDay"
    by (simp add: time_Date_def Let_def m yd_def)
  then have "time_Date y (m + 1) 1 0 0 0 0 div nanosPerDay + unixEpochDays = daysSinceEpoch y + yd"
    by (simp add: nanosPerDay_def Second_def)
  then show ?thesis
    using yd by (simp add: time_date_def absDate_def absYear_daysSinceEpoch)
qed

lemma time_Date_norm:
  "time_Date year month day hour minute sec nsec
     = time_Date (year + (month - 1) div 12) ((month - 1) mod 12 + 1) day hour minute sec nsec"
  by (simp add: time_Date_def Let_def)

lemma time_Date_month_index:
  "12 * y + m = 12 * y' + m' \<Longrightarrow>
     time_Date y m day hour minute sec nsec = time_Date y' m' day hour minute sec nsec"
proof -
  assume eq: "12 * y + m = 12 * y' + m'"
  then have m: "m - 1 = (m' - 1) + 12 * (y' - y)" by simp
  have "(m - 1) mod 12 = (m' - 1) mod 12"
    unfolding m by (rule mod_mult_self2)
  moreover have "(m - 1) div 12 = (y' - y) + (m' - 1) div 12"
    unfolding m by (rule div_mult_self2) simp
  ultimately show ?thesis by (simp add: time_Date_def Let_def)
qed

lemma AddDate_month_start:
  "AddDate (time_Date year month 1 0 0 0 0) 0 1 0 = time_Date year (month + 1) 1 0 0 0 0"
proof -
  define y where "y = year + (month - 1) div 12"
  define m where "m = (month - 1) mod 12"
  have m: "0 \<le> m" "m < 12" by (simp_all add: m_def)
  have t: "time_Date year month 1 0 0 0 0 = time_Date y (m + 1) 1 0 0 0 0"
    unfolding y_def m_def by (rule time_Date_norm)
  have d: "time_date (time_Date y (m + 1) 1 0 0 0 0) = (y, m + 1, 1)"
    using m by (rule time_date_first)
  have "time_Date y (m + 1) 1 0 0 0 0 mod nanosPerDay = 0"
    by (simp add: time_Date_def Let_def)
  then have "AddDate (time_Date y (m + 1) 1 0 0 0 0) 0 1 0 = time_Date y (m + 1 + 1) 1 0 0 0 0"
    by (simp add: AddDate_def d Let_def)
  also have "\<dots> = time_Date year (month + 1) 1 0 0 0 0"
  proof (rule time_Date_month_index)
    have "month - 1 = 12 * ((month - 1) div 12) + m" by (simp add: m_def)
    then show "12 * y + (m + 1 + 1) = 12 * year + (month + 1)" by (simp add: y_def)
  qed
  finally show ?thesis by (simp add: t)
qed


lemma month_start_step: "time_Date y m 1 0 0 0 0 < time_Date y (m + 1) 1 0 0 0 0"
proof -
  define y0 where "y0 = y + (m - 1) div 12"
  define k where "k = (m - 1) mod 12"
  have k: "0 \<le> k" "k < 12" by (simp_all add: k_def)
  have m: "m - 1 = 12 * ((m - 1) div 12) + k" by (simp add: k_def)
  have a: "time_Date y m 1 0 0 0 0 = time_Date y0 (k + 1) 1 0 0 0 0"
    by (rule time_Date_month_index) (use m in \<open>simp add: y0_def\<close>)
  have b: "time_Date y (m + 1) 1 0 0 0 0 = time_Date y0 (k + 2) 1 0 0 0 0"
    by (rule time_Date_month_index) (use m in \<open>simp add: y0_def\<close>)
  have pos: "0 < nanosPerDay" by (simp add: nanosPerDay_def Second_def)
  have "time_Date y0 (k + 1) 1 0 0 0 0 < time_Date y0 (k + 2) 1 0 0 0 0"
    using month_cases [OF k]
    by (elim disjE)
      (simp_all add: time_Date_def Let_def daysBefore_def daysSinceEpoch_next nanosPerDay_def Second_def)
  then show ?thesis by (simp add: a b)
qed

lemma month_start_less_nat:
  "time_Date 0 k 1 0 0 0 0 < time_Date 0 (k + 1 + int n) 1 0 0 0 0"
proof (induction n)
  case 0
  show ?case using month_start_step [of 0 k] by simp
next
  case (Suc n)
  have "time_Date 0 (k + 1 + int n) 1 0 0 0 0 < time_Date 0 (k + 1 + int n + 1) 1 0 0 0 0"
    by (rule month_start_step)
  with Suc show ?case by (simp add: add.assoc)
qed

lemma month_start_mono:
  assumes "12 * y + m < 12 * y' + m'"
  shows "time_Date y m 1 0 0 0 0 < time_Date y' m' 1 0 0 0 0"
proof -
  define k where "k = 12 * y + m"
  define n where "n = nat (12 * y' + m' - k - 1)"
  have n: "12 * y' + m' = k + 1 + int n" using assms by (simp add: n_def k_def)
  have "time_Date y m 1 0 0 0 0 = time_Date 0 k 1 0 0 0 0"
    by (rule time_Date_month_index) (simp add: k_def)
  moreover have "time_Date y' m' 1 0 0 0 0 = time_Date 0 (k + 1 + int n) 1 0 0 0 0"
    by (rule time_Date_month_index) (simp add: n)
  ultimately show ?thesis by (simp add: month_start_less_nat)
qed

lemma month_start_less_iff:
  "time_Date y m 1 0 0 0 0 < time_Date y' m' 1 0 0 0 0 \<longleftrightarrow> 12 * y + m < 12 * y' + m'"
proof
  assume lt: "time_Date y m 1 0 0 0 0 < time_Date y' m' 1 0 0 0 0"
  show "12 * y + m < 12 * y' + m'"
  proof (rule ccontr)
    assume "\<not> 12 * y + m < 12 * y' + m'"
    then consider "12 * y' + m' < 12 * y + m" | "12 * y + m = 12 * y' + m'" by linarith
    then show False
    proof cases
      case 1
      then have "time_Date y' m' 1 0 0 0 0 < time_Date y m 1 0 0 0 0" by (rule month_start_mono)
      with lt show False by simp
    next
      case 2
      then have "time_Date y m 1 0 0 0 0 = time_Date y' m' 1 0 0 0 0"
        by (rule time_Date_month_index)
      with lt show False by simp
    qed
  qed
qed (rule month_start_mono)

lemma month_end_before:
  assumes "Before (time_Date y m 1 0 0 0 0) (time_Date y' m' 1 0 0 0 0)"
  shows "Add (AddDate (time_Date y m 1 0 0 0 0) 0 1 0) (- Second) < time_Date y' m' 1 0 0 0 0"
proof -
  from assms have "12 * y + m < 12 * y' + m'"
    by (simp add: Before_def month_start_less_iff)
  then consider "12 * y + (m + 1) < 12 * y' + m'" | "12 * y + (m + 1) = 12 * y' + m'" by linarith
  then have "time_Date y (m + 1) 1 0 0 0 0 \<le> time_Date y' m' 1 0 0 0 0"
  proof cases
    case 1
    then show ?thesis using month_start_mono [of y "m + 1" y' m'] by simp
  next
    case 2
    then show ?thesis using time_Date_month_index [of y "m + 1" y' m'] by simp
  qed
  then show ?thesis by (simp add: AddDate_month_start Add_def Second_def)
qed

text \<open>
  The other direction: every day count is the count of the date that \<^verbatim>\<open>absDate\<close> gives
  for it, so every instant lies in the month that its date names.
\<close>

lemma div_bounds:
  fixes x n :: int
  assumes "0 \<le> x" "x < n * k" "0 < n"
  shows "0 \<le> x div n \<and> x div n < k \<and> 0 \<le> x - n * (x div n) \<and> x - n * (x div n) < n"
proof -
  have r: "x - n * (x div n) = x mod n" by (simp add: minus_mult_div_eq_mod)
  have "0 \<le> x div n" using assms by (simp add: pos_imp_zdiv_nonneg_iff)
  moreover have "x div n < k"
  proof -
    have "n * (x div n) + x mod n = x" by simp
    moreover have "0 \<le> x mod n" using assms by simp
    ultimately have "n * (x div n) \<le> x" by linarith
    with assms have "n * (x div n) < n * k" by linarith
    with assms show ?thesis by (simp add: mult_less_cancel_left_pos)
  qed
  moreover have "0 \<le> x mod n" "x mod n < n" using assms by simp_all
  ultimately show ?thesis by (simp add: r)
qed

lemma absYear_inverse:
  "case absYear days of (year, yday) \<Rightarrow>
     daysSinceEpoch year + yday = days \<and> 0 \<le> yday \<and> yday < (if isLeap year then 366 else 365)"
proof -
  define a where "a = days div 146097"
  define d1 where "d1 = days - 146097 * a"
  define q100 where "q100 = d1 div 36524"
  define b where "b = q100 - q100 div 4"
  define d2 where "d2 = d1 - 36524 * b"
  define c where "c = d2 div 1461"
  define d3 where "d3 = d2 - 1461 * c"
  define q1 where "q1 = d3 div 365"
  define e where "e = q1 - q1 div 4"
  define yd where "yd = d3 - 365 * e"
  have abs: "absYear days = (400 * a + 100 * b + 4 * c + e + 1, yd)"
    unfolding absYear_def Let_def a_def d1_def q100_def b_def d2_def c_def d3_def q1_def e_def yd_def ..
  have d1: "0 \<le> d1" "d1 < 146097"
    unfolding d1_def a_def by (simp_all add: minus_mult_div_eq_mod)
  have q100: "0 \<le> q100 \<and> q100 < 5 \<and> 0 \<le> d1 - 36524 * q100 \<and> d1 - 36524 * q100 < 36524"
    unfolding q100_def using d1 by (intro div_bounds) simp_all
  have b: "0 \<le> b" "b \<le> 3" "0 \<le> d2" "d2 \<le> 36524" "d2 = 36524 \<Longrightarrow> b = 3"
  proof -
    consider "q100 < 4" | "q100 = 4" using q100 by linarith
    then have "0 \<le> b \<and> b \<le> 3 \<and> 0 \<le> d2 \<and> d2 \<le> 36524 \<and> (d2 = 36524 \<longrightarrow> b = 3)"
    proof cases
      case 1
      with q100 have "q100 div 4 = 0" by simp
      then have "b = q100" by (simp add: b_def)
      with 1 q100 show ?thesis by (simp add: d2_def)
    next
      case 2
      then have bb: "b = 3" by (simp add: b_def)
      from 2 q100 d1 have "d1 = 146096" by linarith
      with bb show ?thesis by (simp add: d2_def)
    qed
    then show "0 \<le> b" "b \<le> 3" "0 \<le> d2" "d2 \<le> 36524" "d2 = 36524 \<Longrightarrow> b = 3" by simp_all
  qed
  have c: "0 \<le> c \<and> c < 25 \<and> 0 \<le> d2 - 1461 * c \<and> d2 - 1461 * c < 1461"
    unfolding c_def using b by (intro div_bounds) simp_all
  then have d3: "0 \<le> d3" "d3 < 1461" by (simp_all add: d3_def)
  have q1: "0 \<le> q1 \<and> q1 < 5 \<and> 0 \<le> d3 - 365 * q1 \<and> d3 - 365 * q1 < 365"
    unfolding q1_def using d3 by (intro div_bounds) simp_all
  have e: "0 \<le> e \<and> e \<le> 3 \<and> 0 \<le> yd \<and> yd \<le> 365 \<and> (yd = 365 \<longrightarrow> e = 3 \<and> d3 = 1460)"
  proof -
    consider "q1 < 4" | "q1 = 4" using q1 by linarith
    then show ?thesis
    proof cases
      case 1
      with q1 have "q1 div 4 = 0" by simp
      then have "e = q1" by (simp add: e_def)
      with 1 q1 show ?thesis by (simp add: yd_def)
    next
      case 2
      then have ee: "e = 3" by (simp add: e_def)
      from 2 q1 d3 have "d3 = 1460" by linarith
      with ee show ?thesis by (simp add: yd_def)
    qed
  qed
  have dg: "0 \<le> b" "b \<le> 3" "0 \<le> c" "c \<le> 24" "0 \<le> e" "e \<le> 3"
    using b c e by simp_all
  have leap: "isLeap (400 * a + 100 * b + 4 * c + e + 1) \<longleftrightarrow> e = 3 \<and> (c \<noteq> 24 \<or> b = 3)"
    using dg by (rule isLeap_digits)
  have sum: "daysSinceEpoch (400 * a + 100 * b + 4 * c + e + 1) + yd = days"
    unfolding daysSinceEpoch_digits [OF dg]
    by (simp add: yd_def d3_def d2_def d1_def)
  have "yd = 365 \<Longrightarrow> c = 24 \<Longrightarrow> b = 3"
  proof -
    assume "yd = 365" "c = 24"
    with e have "d3 = 1460" by simp
    with \<open>c = 24\<close> have "d2 = 36524" by (simp add: d3_def)
    then show "b = 3" by (rule b(5))
  qed
  with e leap have "yd < (if isLeap (400 * a + 100 * b + 4 * c + e + 1) then 366 else 365)"
    by auto
  with sum e show ?thesis by (simp add: abs)
qed


lemma monthDay_plain:
  assumes "0 \<le> day" "day < 365" "q = day div 31" "e = daysBefore ! nat (q + 1)"
  shows "0 \<le> q \<and> q \<le> 11
    \<and> (e \<le> day \<longrightarrow> q \<le> 10 \<and> daysBefore ! nat (q + 1) \<le> day \<and> day < daysBefore ! nat (q + 2))
    \<and> (day < e \<longrightarrow> daysBefore ! nat q \<le> day \<and> day < daysBefore ! nat (q + 1))"
proof -
  have q: "0 \<le> q \<and> q < 12 \<and> 0 \<le> day - 31 * q \<and> day - 31 * q < 31"
    unfolding assms(3) using assms(1,2) by (intro div_bounds) simp_all
  then have "q = 0 \<or> q = 1 \<or> q = 2 \<or> q = 3 \<or> q = 4 \<or> q = 5 \<or> q = 6 \<or> q = 7 \<or> q = 8
         \<or> q = 9 \<or> q = 10 \<or> q = 11"
    by (intro month_cases) simp_all
  then show ?thesis
    using q assms(2) unfolding assms(4)
    by (elim disjE) (simp_all add: daysBefore_def)
qed


lemma monthDay_inverse:
  assumes "0 \<le> yd" "yd < (if leap then 366 else 365)"
  shows "case monthDay leap yd of (m, d) \<Rightarrow>
     1 \<le> m \<and> m \<le> 12
     \<and> daysBefore ! nat (m - 1) + (if leap \<and> m - 1 \<ge> 2 then 1 else 0) \<le> yd
     \<and> yd < daysBefore ! nat m + (if leap \<and> m \<ge> 2 then 1 else 0)"
proof (cases "leap \<and> yd = 59")
  case True
  then show ?thesis by (simp add: monthDay_def daysBefore_def)
next
  case False
  define day where "day = (if leap \<and> yd > 59 then yd - 1 else yd)"
  define q where "q = day div 31"
  have day: "0 \<le> day" "day < 365"
    using assms False by (auto simp: day_def split: if_splits)
  have q: "0 \<le> q \<and> q < 12 \<and> 0 \<le> day - 31 * q \<and> day - 31 * q < 31"
    unfolding q_def using day by (intro div_bounds) simp_all
  then have qs: "q = 0 \<or> q = 1 \<or> q = 2 \<or> q = 3 \<or> q = 4 \<or> q = 5 \<or> q = 6 \<or> q = 7 \<or> q = 8
         \<or> q = 9 \<or> q = 10 \<or> q = 11"
    by (intro month_cases) simp_all
  have md: "monthDay leap yd =
     (if day \<ge> daysBefore ! nat (q + 1) then (q + 2, day - daysBefore ! nat (q + 1) + 1)
      else (q + 1, day - daysBefore ! nat q + 1))"
  proof -
    from False have ff: "(leap \<and> yd = 31 + 29 - 1) = False" by simp
    show ?thesis
      unfolding monthDay_def ff if_False Let_def by (simp add: day_def q_def)
  qed
  show ?thesis
  proof (cases "leap \<and> yd > 59")
    case True
    then have d: "day = yd - 1" by (simp add: day_def)
    from qs show ?thesis
      unfolding md using q day True d
      by (elim disjE) (simp_all add: daysBefore_def)
  next
    case nl: False
    with False have d: "day = yd" and l: "leap \<Longrightarrow> yd < 59" by (auto simp: day_def)
    from qs show ?thesis
      unfolding md using q day d l
      by (elim disjE) (auto simp: daysBefore_def)
  qed
qed


lemma month_contains:
  "case time_date t of (year, month, day) \<Rightarrow>
     time_Date year month 1 0 0 0 0 \<le> t \<and> t < time_Date year (month + 1) 1 0 0 0 0"
proof -
  define D where "D = t div nanosPerDay + unixEpochDays"
  obtain y yd where ay: "absYear D = (y, yd)" by (cases "absYear D")
  obtain m d where md: "monthDay (isLeap y) yd = (m, d)" by (cases "monthDay (isLeap y) yd")
  from absYear_inverse [of D] ay
  have yd: "daysSinceEpoch y + yd = D" "0 \<le> yd" "yd < (if isLeap y then 366 else 365)"
    by simp_all
  from monthDay_inverse [OF yd(2,3)] md
  have m: "1 \<le> m" "m \<le> 12"
    "daysBefore ! nat (m - 1) + (if isLeap y \<and> m - 1 \<ge> 2 then 1 else 0) \<le> yd"
    "yd < daysBefore ! nat m + (if isLeap y \<and> m \<ge> 2 then 1 else 0)"
    by simp_all
  have td: "time_date t = (y, m, d)"
    by (simp add: time_date_def absDate_def D_def [symmetric] ay md)
  have pos: "0 < nanosPerDay" by (simp add: nanosPerDay_def Second_def)
  have dm: "nanosPerDay * (t div nanosPerDay) + t mod nanosPerDay = t" by simp
  have r: "0 \<le> t mod nanosPerDay" "t mod nanosPerDay < nanosPerDay"
    using pos by simp_all
  have "nanosPerDay * (t div nanosPerDay) \<le> t"
    "t < nanosPerDay * (t div nanosPerDay) + nanosPerDay"
    using dm r by linarith+
  then have t: "(D - unixEpochDays) * nanosPerDay \<le> t"
    "t < (D + 1 - unixEpochDays) * nanosPerDay"
    by (simp_all add: D_def algebra_simps)
  have m1: "(m - 1) mod 12 = m - 1" "(m - 1) div 12 = 0" using m(1,2) by simp_all
  have "time_Date y m 1 0 0 0 0
          = (daysSinceEpoch y + daysBefore ! nat (m - 1)
               + (if isLeap y \<and> m - 1 \<ge> 2 then 1 else 0) - unixEpochDays) * nanosPerDay"
    by (simp add: time_Date_def Let_def m1)
  also have "\<dots> \<le> (D - unixEpochDays) * nanosPerDay"
    using m(3) yd(1) pos by (intro mult_right_mono) simp_all
  finally have lower: "time_Date y m 1 0 0 0 0 \<le> t" using t(1) by simp
  have "(D + 1 - unixEpochDays) * nanosPerDay \<le> time_Date y (m + 1) 1 0 0 0 0"
  proof (cases "m = 12")
    case True
    have "time_Date y (12 + 1) 1 0 0 0 0
            = (daysSinceEpoch (y + 1) - unixEpochDays) * nanosPerDay"
      by (simp add: time_Date_def Let_def daysBefore_def)
    moreover have "D + 1 \<le> daysSinceEpoch (y + 1)"
      using yd by (simp add: daysSinceEpoch_next split: if_splits)
    ultimately show ?thesis
      using pos True by (simp add: mult_right_mono)
  next
    case False
    with m have m2: "m mod 12 = m" "m div 12 = 0" by simp_all
    have "time_Date y (m + 1) 1 0 0 0 0
          = (daysSinceEpoch y + daysBefore ! nat m
               + (if isLeap y \<and> m \<ge> 2 then 1 else 0) - unixEpochDays) * nanosPerDay"
      by (simp add: time_Date_def Let_def m2)
    moreover have "D + 1 \<le> daysSinceEpoch y + daysBefore ! nat m
               + (if isLeap y \<and> m \<ge> 2 then 1 else 0)"
      using m(4) yd(1) by simp
    ultimately show ?thesis
      using pos by (simp add: mult_right_mono)
  qed
  with t(2) have "t < time_Date y (m + 1) 1 0 0 0 0" by simp
  with lower show ?thesis by (simp add: td)
qed

lemma currentMonthStart_contains:
  "currentMonthStart now \<le> unixNano now + zoneOffset now * Second
   \<and> unixNano now + zoneOffset now * Second < time_Date (Year now) (Month now + 1) 1 0 0 0 0"
  using month_contains [of "unixNano now + zoneOffset now * Second"]
  by (simp add: currentMonthStart_def Year_def Month_def split: prod.splits)

section \<open>Properties of the store\<close>

subsection \<open>The loops\<close>



lemma rows_loop_Exhausted: "rows_loop rs fs = (out, Exhausted, fs') \<Longrightarrow> out = rs"
  by (induction rs arbitrary: fs out fs') (auto simp: Let_def split: prod.splits if_splits)

lemma delete_loop_error: "delete_loop rows ms n fs = (rows', n', Some e, fs') \<Longrightarrow> n' = 0"
  by (induction ms arbitrary: rows n fs) (auto simp: Let_def split: prod.splits if_splits)

lemma delete_loop_ok:
  "delete_loop rows ms n fs = (rows', n', None, fs') \<Longrightarrow>
     rows' = delete_all rows ms \<and> n' = n + int (length rows) - int (length rows')"
proof (induction ms arbitrary: rows n fs)
  case Nil
  then show ?case by (simp add: delete_all_def)
next
  case (Cons m ms)
  let ?r = "delete_between rows m (Add (AddDate m 0 1 0) (- Second))"
  obtain f fs1 where f: "driver_call fs = (f, fs1)" by (cases "driver_call fs")
  obtain g fs2 where g: "driver_call fs1 = (g, fs2)" by (cases "driver_call fs1")
  from Cons.prems f g have nf: "\<not> f" and ng: "\<not> g"
    by (auto simp: Let_def split: if_splits)
  with Cons.prems f g have
    "delete_loop ?r ms (n + (int (length rows) - int (length ?r))) fs2 = (rows', n', None, fs')"
    by (simp add: Let_def)
  from Cons.IH [OF this] show ?case
    by (simp add: delete_all_def)
qed

subsection \<open>PruneOldData, path by path\<close>

lemma PruneOldData_cases:
  assumes f: "driver_call fs = (f, fs1)"
    and g: "driver_call fs1 = (g, fs2)"
    and r: "rows_loop (aggregated_months (monthly_averages db)) fs2 = (scanned, e, fs3)"
    and c: "completedMonths =
              filter (\<lambda>monthStart. Before monthStart (currentMonthStart now))
                (map (\<lambda>(year, month). time_Date year month 1 0 0 0 0) scanned)"
    and d: "delete_loop (bucket_usage db) completedMonths 0 fs3 = (rows, n, err, fs4)"
    and h: "driver_call fs4 = (h, fs5)"
  shows "PruneOldData now db fs =
     (if f then (db, 0, Some BeginFailed)
      else if g then (db, 0, Some QueryFailed)
      else if e = ScanError then (db, 0, Some ScanFailed)
      else if e = NextFailed then (db, 0, Some IterationFailed)
      else if completedMonths = [] then (db, 0, None)
      else if err \<noteq> None then (db, n, err)
      else if h then (db, 0, Some CommitFailed)
      else (db\<lparr>bucket_usage := rows\<rparr>, n, None))"
  unfolding PruneOldData_def Let_def f g r c [symmetric] d h prod.case
  by (cases err) simp_all

lemma PruneOldData_outcome:
  "case PruneOldData now db fs of
     (db', n, None) \<Rightarrow>
       db' = db\<lparr>bucket_usage :=
                  delete_all (bucket_usage db) (completed_months now (monthly_averages db))\<rparr>
   | (db', n, Some e) \<Rightarrow> db' = db \<and> n = 0"
proof -
  obtain f fs1 where f: "driver_call fs = (f, fs1)" by (cases "driver_call fs")
  obtain g fs2 where g: "driver_call fs1 = (g, fs2)" by (cases "driver_call fs1")
  obtain scanned e fs3 where
    r: "rows_loop (aggregated_months (monthly_averages db)) fs2 = (scanned, e, fs3)"
    by (cases "rows_loop (aggregated_months (monthly_averages db)) fs2")
  define cm where
    "cm = filter (\<lambda>monthStart. Before monthStart (currentMonthStart now))
            (map (\<lambda>(year, month). time_Date year month 1 0 0 0 0) scanned)"
  obtain rows n err fs4 where d: "delete_loop (bucket_usage db) cm 0 fs3 = (rows, n, err, fs4)"
    by (cases "delete_loop (bucket_usage db) cm 0 fs3")
  obtain h fs5 where h: "driver_call fs4 = (h, fs5)" by (cases "driver_call fs4")
  note eq = PruneOldData_cases [OF f g r cm_def d h]
  show ?thesis
  proof (cases "f \<or> g \<or> e \<noteq> Exhausted")
    case True
    then show ?thesis by (cases e) (auto simp: eq)
  next
    case False
    then have e: "e = Exhausted" and nf: "\<not> f" "\<not> g" by auto
    from r e have "scanned = aggregated_months (monthly_averages db)"
      by (simp add: rows_loop_Exhausted)
    then have cm: "cm = completed_months now (monthly_averages db)"
      by (simp add: cm_def completed_months_def)
    show ?thesis
    proof (cases "cm = []")
      case True
      with cm [symmetric] nf e show ?thesis by (simp add: eq delete_all_def)
    next
      case ne: False
      show ?thesis
      proof (cases err)
        case None
        with d have "rows = delete_all (bucket_usage db) cm"
          by (simp add: delete_loop_ok)
        with None nf e ne cm show ?thesis by (cases h) (simp_all add: eq)
      next
        case (Some x)
        with d have "n = 0" by (simp add: delete_loop_error)
        with Some nf e ne show ?thesis by (simp add: eq)
      qed
    qed
  qed
qed

lemma delete_all_filter:
  "delete_all rows ms =
     filter (\<lambda>u. \<forall>m \<in> set ms. \<not> between (Timestamp u) m (Add (AddDate m 0 1 0) (- Second))) rows"
proof (induction ms arbitrary: rows)
  case Nil
  show ?case by (simp add: delete_all_def)
next
  case (Cons m ms)
  have "delete_all rows (m # ms)
          = delete_all (delete_between rows m (Add (AddDate m 0 1 0) (- Second))) ms"
    by (simp add: delete_all_def)
  also have "\<dots> = filter (\<lambda>u. \<forall>m \<in> set ms. \<not> between (Timestamp u) m (Add (AddDate m 0 1 0) (- Second)))
                     (delete_between rows m (Add (AddDate m 0 1 0) (- Second)))"
    by (rule Cons.IH)
  also have "\<dots> = filter (\<lambda>u. \<forall>m \<in> set (m # ms). \<not> between (Timestamp u) m (Add (AddDate m 0 1 0) (- Second))) rows"
    by (auto simp: delete_between_def between_def intro!: filter_cong)
  finally show ?case .
qed

lemma set_aggregated_months:
  "set (aggregated_months avgs) = (\<lambda>a. (avg_year a, avg_month a)) ` set avgs"
  by (simp add: aggregated_months_def)

lemma month_window: "Add (AddDate (month_first y m) 0 1 0) (- Second) = month_last y m"
  by (simp add: month_first_def month_last_def AddDate_month_start Add_def)

lemma in_completed_months:
  "(\<exists>m \<in> set (completed_months now avgs). between t m (Add (AddDate m 0 1 0) (- Second)))
     \<longleftrightarrow> prunable now avgs t"
proof -
  have "set (completed_months now avgs)
          = {month_first (avg_year a) (avg_month a) | a :: monthly_average.
               a \<in> set avgs \<and> month_first (avg_year a) (avg_month a) < currentMonthStart now}"
    by (auto simp: completed_months_def set_aggregated_months month_first_def Before_def)
  then show ?thesis
    unfolding prunable_def by (auto simp: month_window)
qed

lemma delete_all_completed:
  "delete_all rows (completed_months now avgs)
     = filter (\<lambda>u. \<not> prunable now avgs (Timestamp u)) rows"
  unfolding delete_all_filter using in_completed_months [of now avgs]
  by (intro filter_cong) auto

lemma prunable_before:
  assumes "prunable now avgs t"
  shows "t < currentMonthStart now"
proof -
  from assms obtain a :: monthly_average where
    lt: "month_first (avg_year a) (avg_month a) < currentMonthStart now"
    and t: "t \<le> month_last (avg_year a) (avg_month a)"
    by (auto simp: prunable_def between_def)
  from lt have "Before (time_Date (avg_year a) (avg_month a) 1 0 0 0 0)
                  (time_Date (Year now) (Month now) 1 0 0 0 0)"
    by (simp add: Before_def month_first_def currentMonthStart_def)
  then have "month_last (avg_year a) (avg_month a) < currentMonthStart now"
    using month_end_before [of "avg_year a" "avg_month a" "Year now" "Month now"]
    by (simp add: month_window [symmetric] month_first_def currentMonthStart_def)
  with t show ?thesis by simp
qed


subsection \<open>PruneOldData when the storage does not fail\<close>


lemma PruneOldData_rows:
  "bucket_usage (fst (PruneOldData now db fs)) = bucket_usage db
   \<or> bucket_usage (fst (PruneOldData now db fs))
       = filter (\<lambda>u. \<not> prunable now (monthly_averages db) (Timestamp u)) (bucket_usage db)"
  using PruneOldData_outcome [where now = now and db = db and fs = fs]
  by (auto simp: delete_all_completed split: prod.splits option.splits)

subsection \<open>The claims about PruneOldData\<close>

text \<open>
  C9. \<^verbatim>\<open>PruneOldData\<close> never touches the table of monthly averages: whatever the clock
  reads, whatever the database holds and wherever the storage fails, the table after the
  call is the table before it, row for row.
\<close>

theorem PruneOldData_keeps_monthly_averages:
  "monthly_averages (fst (PruneOldData now db fs)) = monthly_averages db"
  by (auto simp: PruneOldData_def Let_def split: prod.splits option.splits if_splits)

theorem PruneOldData_keeps_monthly_averages_witness:
  "PruneOldData example_now example_db [] =
     (example_db\<lparr>bucket_usage := [sample_feb]\<rparr>, 4, None)
   \<and> monthly_averages (fst (PruneOldData example_now example_db [])) = [avg_dec, avg_jan]"
proof -
  have "PruneOldData example_now example_db [] =
     (example_db\<lparr>bucket_usage := [sample_feb]\<rparr>, 4, None)"
    by code_simp
  moreover have "monthly_averages example_db = [avg_dec, avg_jan]"
    by (simp add: example_db_def)
  ultimately show ?thesis
    using PruneOldData_keeps_monthly_averages [where now = example_now and db = example_db and fs = "[]"] by simp
qed

text \<open>
  C3. \<^verbatim>\<open>PruneOldData\<close> is all or nothing. Wherever the storage fails (beginning the
  transaction, the query, scanning or iterating its rows, a delete, reading the rows
  affected, the commit), the call returns the error with a count of 0 and the database is
  as it was. When it returns no error, the table of samples is the table after the deletes
  of every completed month that has an aggregate, and nothing else has changed.
\<close>

theorem PruneOldData_atomic:
  "case PruneOldData now db fs of
     (db', n, None) \<Rightarrow>
       db' = db\<lparr>bucket_usage :=
                  delete_all (bucket_usage db) (completed_months now (monthly_averages db))\<rparr>
   | (db', n, Some e) \<Rightarrow> db' = db \<and> n = 0"
  by (rule PruneOldData_outcome)

text \<open>
  The delete of January fails after the delete of December has run inside the
  transaction: nothing of it is kept.
\<close>

theorem PruneOldData_atomic_witness:
  "PruneOldData example_now example_db
      [False, False, False, False, False, False, False, False, False, True]
     = (example_db, 0, Some (DeleteFailed (time_Date 2025 1 1 0 0 0 0)))
   \<and> delete_all (bucket_usage example_db)
        (completed_months example_now (monthly_averages example_db)) = [sample_feb]"
proof -
  have a: "PruneOldData example_now example_db
      [False, False, False, False, False, False, False, False, False, True]
     = (example_db, 0, Some (DeleteFailed (time_Date 2025 1 1 0 0 0 0)))"
    by code_simp
  have b: "PruneOldData example_now example_db [] =
     (example_db\<lparr>bucket_usage := [sample_feb]\<rparr>, 4, None)"
    by code_simp
  have "bucket_usage (example_db\<lparr>bucket_usage := [sample_feb]\<rparr>)
        = bucket_usage (example_db\<lparr>bucket_usage := delete_all (bucket_usage example_db)
            (completed_months example_now (monthly_averages example_db))\<rparr>)"
    using PruneOldData_atomic [where now = example_now and db = example_db and fs = "[]"]
    unfolding b by simp
  then show ?thesis using a by simp
qed

text \<open>
  What the code keeps is measured from the value it computes itself, \<open>currentMonthStart\<close>:
  day 1 at 00:00:00 UTC of the year and month that \<open>now\<close> reads in its own zone. The
  samples stamped at or after that value are the same after the call as before it, every
  window that is deleted ends before it, and it is the first instant of the month that
  holds the wall clock reading of \<open>now\<close>, read as if it were UTC. In a zone east of UTC
  that value can lie after the instant of \<open>now\<close>.
\<close>

lemma PruneOldData_keeps_from_currentMonthStart:
  "filter (\<lambda>u. currentMonthStart now \<le> Timestamp u) (bucket_usage (fst (PruneOldData now db fs)))
     = filter (\<lambda>u. currentMonthStart now \<le> Timestamp u) (bucket_usage db)
   \<and> (\<forall>monthStart \<in> set (completed_months now (monthly_averages db)).
        monthStart < currentMonthStart now
        \<and> Add (AddDate monthStart 0 1 0) (- Second) < currentMonthStart now)
   \<and> currentMonthStart now \<le> unixNano now + zoneOffset now * Second
   \<and> unixNano now + zoneOffset now * Second < AddDate (currentMonthStart now) 0 1 0"
proof (intro conjI)
  have keep: "\<not> prunable now (monthly_averages db) (Timestamp u)"
    if "currentMonthStart now \<le> Timestamp u" for u :: BucketUsage
    using prunable_before [of now "monthly_averages db" "Timestamp u"] that by auto
  have "filter (\<lambda>u. currentMonthStart now \<le> Timestamp u)
          (filter (\<lambda>u. \<not> prunable now (monthly_averages db) (Timestamp u)) (bucket_usage db))
        = filter (\<lambda>u. currentMonthStart now \<le> Timestamp u) (bucket_usage db)"
    unfolding filter_filter using keep by (intro filter_cong) auto
  then show "filter (\<lambda>u. currentMonthStart now \<le> Timestamp u)
               (bucket_usage (fst (PruneOldData now db fs)))
             = filter (\<lambda>u. currentMonthStart now \<le> Timestamp u) (bucket_usage db)"
    using PruneOldData_rows [of now db fs] by auto
next
  show "\<forall>monthStart \<in> set (completed_months now (monthly_averages db)).
          monthStart < currentMonthStart now
          \<and> Add (AddDate monthStart 0 1 0) (- Second) < currentMonthStart now"
  proof
    fix monthStart
    assume "monthStart \<in> set (completed_months now (monthly_averages db))"
    then obtain year month where m: "monthStart = time_Date year month 1 0 0 0 0"
      and b: "Before monthStart (currentMonthStart now)"
      by (auto simp: completed_months_def)
    from b have "Add (AddDate monthStart 0 1 0) (- Second) < currentMonthStart now"
      unfolding m currentMonthStart_def by (rule month_end_before)
    with b show "monthStart < currentMonthStart now
          \<and> Add (AddDate monthStart 0 1 0) (- Second) < currentMonthStart now"
      by (simp add: Before_def)
  qed
next
  show "currentMonthStart now \<le> unixNano now + zoneOffset now * Second"
    using currentMonthStart_contains [of now] by simp
next
  show "unixNano now + zoneOffset now * Second < AddDate (currentMonthStart now) 0 1 0"
    using currentMonthStart_contains [of now]
    by (simp add: currentMonthStart_def AddDate_month_start)
qed

text \<open>
  C4. \<^verbatim>\<open>PruneOldData\<close> is meant to keep the samples of the current month (its comment:
  ``It keeps data from the current month''), and it does not: it takes the year and the
  month of \<^verbatim>\<open>time.Now()\<close> in the local zone and makes a UTC instant of them. With the clock
  at 1 March 2025, 02:00 in a zone five hours east of UTC (28 February 21:00 UTC) the start
  it computes is 1 March 00:00 UTC, three hours after \<open>now\<close>, so February counts as
  completed and its window is deleted. The sample taken half an hour before \<open>now\<close> goes
  with it, although it lies in the month that contains \<open>now\<close> on either calendar: by
  UTC both are in February, whose first instant is 1 February 00:00 UTC, and by the local
  zone both are in March, whose first instant is 28 February 19:00 UTC.
\<close>

theorem PruneOldData_deletes_current_month:
  "PruneOldData march_now march_db [] = (march_db\<lparr>bucket_usage := []\<rparr>, 1, None)
   \<and> bucket_usage march_db = [sample_late]
   \<and> Timestamp sample_late < unixNano march_now
   \<and> time_date (unixNano march_now) = (2025, 2, 28)
   \<and> time_date (Timestamp sample_late) = (2025, 2, 28)
   \<and> time_Date 2025 2 1 0 0 0 0 \<le> Timestamp sample_late
   \<and> time_date (unixNano march_now + zoneOffset march_now * Second) = (2025, 3, 1)
   \<and> time_date (Timestamp sample_late + zoneOffset march_now * Second) = (2025, 3, 1)
   \<and> time_Date 2025 3 1 0 0 0 0 - zoneOffset march_now * Second \<le> Timestamp sample_late
   \<and> currentMonthStart march_now = time_Date 2025 3 1 0 0 0 0
   \<and> unixNano march_now < currentMonthStart march_now"
  by code_simp



subsection \<open>Averages as SQLite computes them\<close>

lemma set_sql_distinct: "set (sql_distinct xs) = set xs"
  by (simp add: sql_distinct_def)


lemma cnt_Step: "cnt (kahanBabuskaNeumaierStep p r) = cnt p"
  by (simp add: kahanBabuskaNeumaierStep_def Let_def)

lemma cnt_StepInt64: "cnt (kahanBabuskaNeumaierStepInt64 p v) = cnt p"
  by (simp add: kahanBabuskaNeumaierStepInt64_def Let_def cnt_Step)

lemma cnt_Init: "cnt (kahanBabuskaNeumaierInit p v) = cnt p"
  by (simp add: kahanBabuskaNeumaierInit_def Let_def)

lemma cnt_sumStep: "cnt (sumStep p v) = cnt p + 1"
  by (simp add: sumStep_def Let_def cnt_StepInt64 cnt_Init)

lemma cnt_foldl_sumStep: "cnt (foldl sumStep p xs) = cnt p + int (length xs)"
  by (induction xs arbitrary: p) (simp_all add: cnt_sumStep)

lemma sql_avg_None: "sql_avg xs = None \<longleftrightarrow> xs = []"
  by (simp add: sql_avg_def avgFinalize_def cnt_foldl_sumStep)

lemma sql_avg_Some: "xs \<noteq> [] \<Longrightarrow> \<exists>r. sql_avg xs = Some r"
  using sql_avg_None [of xs] by auto




lemma sort_key_Nil: "sort_key k xs = [] \<longleftrightarrow> xs = []"
proof
  assume "sort_key k xs = []"
  then have "length (sort_key k xs) = 0" by simp
  then show "xs = []" by (simp only: length_sort length_0_conv)
qed simp






subsection \<open>Upserts and the loop of CalculateMonthlyAverages\<close>

lemma has_key_iff: "has_key b y m a \<longleftrightarrow> (bucket_name a, avg_year a, avg_month a) = (b, y, m)"
  by (auto simp: has_key_def)












lemma upsert_buckets_Cons:
  "upsert_buckets rows y m avgs (b # bs) = upsert_buckets rows y m (upsert_bucket rows y m avgs b) bs"
  by (simp add: upsert_buckets_def)




lemma in_month_buckets:
  "b \<in> set (month_buckets rows y m) \<longleftrightarrow> samples_in_month rows b y m \<noteq> []"
  by (auto simp: month_buckets_def set_sql_distinct samples_in_month_def filter_empty_conv)

lemma loop_rows:
  "filter (\<lambda>u. BucketName u = b \<and> between (Timestamp u) (month_first y m) (month_last y m)) rows
     = samples_in_month rows b y m"
  by (simp add: samples_in_month_def in_month_def)

lemma average_loop_step:
  assumes "samples_in_month (bucket_usage db) b y m \<noteq> []"
    and "driver_call fs = (False, fs1)" "driver_call fs1 = (False, fs2)"
  shows "average_loop db y m (month_first y m) (month_last y m) (b # bs) fs
          = average_loop (db\<lparr>monthly_averages := upsert_bucket (bucket_usage db) y m (monthly_averages db) b\<rparr>)
              y m (month_first y m) (month_last y m) bs fs2"
proof -
  have ne: "map f (sort_key Timestamp (samples_in_month (bucket_usage db) b y m)) \<noteq> []"
    for f :: "BucketUsage \<Rightarrow> int"
    using assms(1) by (simp add: sort_key_Nil)
  from sql_avg_Some [OF ne] obtain v where
    v: "sql_avg (map (\<lambda>u. sint (SizeBytes u))
          (sort_key Timestamp (samples_in_month (bucket_usage db) b y m))) = Some v"
    by blast
  from sql_avg_Some [OF ne] obtain w where
    w: "sql_avg (map (\<lambda>u. sint (ObjectCount u))
          (sort_key Timestamp (samples_in_month (bucket_usage db) b y m))) = Some w"
    by blast
  show ?thesis
    using assms(2,3)
    by (simp add: loop_rows upsert_bucket_def month_average_def Let_def v w)
qed



lemma plan_cases:
  fixes p :: nat
  obtains "p = 0" | "p = 1" | q where "p = Suc (Suc q)"
proof (cases p)
  case 0
  then show thesis by (rule that(1))
next
  case (Suc n)
  show thesis
  proof (cases n)
    case 0
    with Suc show thesis by (intro that(2)) simp
  next
    case (Suc q)
    with \<open>p = Suc n\<close> show thesis by (intro that(3) [of q]) simp
  qed
qed

lemma average_loop_fault:
  assumes "\<forall>b \<in> set bs. samples_in_month (bucket_usage db) b y m \<noteq> []"
    and "p < 2 * length bs"
  shows "average_loop db y m (month_first y m) (month_last y m) bs (replicate p False @ True # rest)
          = (db\<lparr>monthly_averages :=
                  upsert_buckets (bucket_usage db) y m (monthly_averages db) (take (p div 2) bs)\<rparr>,
             Some DriverError)"
  using assms
proof (induction bs arbitrary: db p)
  case Nil
  then show ?case by simp
next
  case (Cons b bs)
  let ?db = "db\<lparr>monthly_averages := upsert_bucket (bucket_usage db) y m (monthly_averages db) b\<rparr>"
  from Cons.prems(1) have ne: "samples_in_month (bucket_usage db) b y m \<noteq> []" by simp
  have nm: "map f (sort_key Timestamp (samples_in_month (bucket_usage db) b y m)) \<noteq> []"
    for f :: "BucketUsage \<Rightarrow> int"
    using ne by (simp add: sort_key_Nil)
  show ?case
  proof (cases p rule: plan_cases)
    case 1
    then show ?thesis by (simp add: driver_call_def upsert_buckets_def)
  next
    case 2
    from sql_avg_Some [OF nm] obtain v where
      v: "sql_avg (map (\<lambda>u. sint (SizeBytes u))
            (sort_key Timestamp (samples_in_month (bucket_usage db) b y m))) = Some v"
      by blast
    from sql_avg_Some [OF nm] obtain w where
      w: "sql_avg (map (\<lambda>u. sint (ObjectCount u))
            (sort_key Timestamp (samples_in_month (bucket_usage db) b y m))) = Some w"
      by blast
    from 2 show ?thesis
      by (simp add: driver_call_def upsert_buckets_def loop_rows Let_def v w)
  next
    case (3 q)
    have step: "average_loop db y m (month_first y m) (month_last y m) (b # bs)
                  (replicate p False @ True # rest)
               = average_loop ?db y m (month_first y m) (month_last y m) bs
                  (replicate q False @ True # rest)"
    proof (rule average_loop_step [OF ne])
      show "driver_call (replicate p False @ True # rest)
              = (False, replicate (Suc q) False @ True # rest)"
        by (simp add: 3 driver_call_def)
      show "driver_call (replicate (Suc q) False @ True # rest)
              = (False, replicate q False @ True # rest)"
        by (simp add: driver_call_def)
    qed
    from Cons.prems(1) have all: "\<forall>b \<in> set bs. samples_in_month (bucket_usage ?db) b y m \<noteq> []"
      by simp
    from Cons.prems(2) 3 have q: "q < 2 * length bs" by simp
    show ?thesis
      unfolding step Cons.IH [OF all q]
      by (simp add: 3 upsert_buckets_Cons)
  qed
qed

lemma rows_loop_Exhausted_replicate:
  assumes "2 * length rs < p"
  shows "rows_loop rs (replicate p False @ True # rest)
           = (rs, Exhausted, replicate (p - (2 * length rs + 1)) False @ True # rest)"
  using assms
proof (induction rs arbitrary: p)
  case Nil
  then obtain q where "p = Suc q" by (cases p) simp_all
  then show ?case by (simp add: driver_call_def)
next
  case (Cons r rs)
  show ?case
  proof (cases p rule: plan_cases)
    case 1
    with Cons.prems show ?thesis by simp
  next
    case 2
    with Cons.prems show ?thesis by simp
  next
    case (3 q)
    with Cons.prems have q: "2 * length rs < q" by simp
    show ?thesis
      by (simp add: 3 driver_call_def Cons.IH [OF q])
  qed
qed

lemma rows_loop_ScanError_replicate:
  assumes "p < 2 * length rs" "odd p"
  shows "rows_loop rs (replicate p False @ True # rest) = (take (p div 2) rs, ScanError, rest)"
  using assms
proof (induction rs arbitrary: p)
  case Nil
  then show ?case by simp
next
  case (Cons r rs)
  show ?case
  proof (cases p rule: plan_cases)
    case 1
    with Cons.prems show ?thesis by simp
  next
    case 2
    then show ?thesis by (simp add: driver_call_def)
  next
    case (3 q)
    with Cons.prems have q: "q < 2 * length rs" "odd q" by simp_all
    show ?thesis
      by (simp add: 3 driver_call_def Cons.IH [OF q])
  qed
qed

lemma code_window:
  "time_Date y m 1 0 0 0 0 = month_first y m"
  "Add (AddDate (time_Date y m 1 0 0 0 0) 0 1 0) (- Second) = month_last y m"
  by (simp_all add: month_first_def month_last_def AddDate_month_start Add_def)

lemma CalculateMonthlyAverages_cases:
  assumes "driver_call fs = (f, fs1)"
    and "rows_loop (month_buckets (bucket_usage db) y m) fs1 = (out, e, fs2)"
  shows "CalculateMonthlyAverages db y m fs =
     (if f then (db, Some DriverError)
      else if e = ScanError then (db, Some DriverError)
      else average_loop db y m (month_first y m) (month_last y m) out fs2)"
  unfolding CalculateMonthlyAverages_def Let_def code_window month_window
  using assms by (simp add: month_buckets_def in_month_def)



lemma CalculateMonthlyAverages_fault:
  assumes "p < 4 * length (month_buckets (bucket_usage db) y m) + 2"
    and "p \<le> 2 * length (month_buckets (bucket_usage db) y m) + 1 \<longrightarrow> even p"
  shows "CalculateMonthlyAverages db y m (replicate p False @ True # rest)
     = (db\<lparr>monthly_averages :=
             upsert_buckets (bucket_usage db) y m (monthly_averages db)
               (take ((p - (2 * length (month_buckets (bucket_usage db) y m) + 2)) div 2)
                  (month_buckets (bucket_usage db) y m))\<rparr>,
        Some DriverError)"
proof -
  let ?bs = "month_buckets (bucket_usage db) y m"
  let ?k = "length ?bs"
  have same: "db\<lparr>monthly_averages := upsert_buckets (bucket_usage db) y m (monthly_averages db) []\<rparr> = db"
    by (simp add: upsert_buckets_def)
  show ?thesis
  proof (cases p)
    case 0
    have "CalculateMonthlyAverages db y m (True # rest) = (db, Some DriverError)"
      by (simp add: CalculateMonthlyAverages_def driver_call_def Let_def)
    with 0 same show ?thesis by simp
  next
    case (Suc q)
    have f: "driver_call (replicate p False @ True # rest) = (False, replicate q False @ True # rest)"
      by (simp add: Suc driver_call_def)
    show ?thesis
    proof (cases "p \<le> 2 * ?k + 1")
      case True
      with assms(2) Suc have "q \<le> 2 * ?k" "odd q" by auto
      moreover from \<open>odd q\<close> have "q \<noteq> 2 * ?k" by auto
      ultimately have q: "q < 2 * ?k" "odd q" by simp_all
      from CalculateMonthlyAverages_cases [OF f rows_loop_ScanError_replicate [OF q]]
      have "CalculateMonthlyAverages db y m (replicate p False @ True # rest) = (db, Some DriverError)"
        by simp
      moreover from True have "(p - (2 * ?k + 2)) div 2 = 0" by simp
      ultimately show ?thesis using same by simp
    next
      case False
      with Suc have q: "2 * ?k < q" by simp
      have all: "\<forall>b \<in> set ?bs. samples_in_month (bucket_usage db) b y m \<noteq> []"
        by (simp add: in_month_buckets)
      from False assms(1) Suc have r: "q - (2 * ?k + 1) < 2 * ?k" by simp
      from False Suc have pq: "q - (2 * ?k + 1) = p - (2 * ?k + 2)" by simp
      from CalculateMonthlyAverages_cases [OF f rows_loop_Exhausted_replicate [OF q]]
      have "CalculateMonthlyAverages db y m (replicate p False @ True # rest)
              = average_loop db y m (month_first y m) (month_last y m) ?bs
                  (replicate (q - (2 * ?k + 1)) False @ True # rest)"
        by simp
      also have "\<dots> = (db\<lparr>monthly_averages :=
             upsert_buckets (bucket_usage db) y m (monthly_averages db)
               (take ((q - (2 * ?k + 1)) div 2) ?bs)\<rparr>, Some DriverError)"
        using all r by (rule average_loop_fault)
      finally show ?thesis unfolding pq .
    qed
  qed
qed

subsection \<open>The claims about CalculateMonthlyAverages\<close>




text \<open>
  C6, as the claim states it, fails: the function opens no transaction, so the upsert of
  b1 stays written when the query for b2 fails. The call returns the error, and the row of
  b1 in January is no longer the one from before the call.
\<close>

theorem CalculateMonthlyAverages_not_atomic:
  "snd (CalculateMonthlyAverages january_db 2025 1
          [False, False, False, False, False, False, False, False, True]) = Some DriverError
   \<and> monthly_averages (fst (CalculateMonthlyAverages january_db 2025 1
          [False, False, False, False, False, False, False, False, True]))
      = [avg_dec,
         \<lparr>bucket_name = ''b1'', avg_year = 2025, avg_month = 1,
           avg_size_bytes = 200, avg_object_count = 3, data_points = 3\<rparr>]
   \<and> monthly_averages january_db = [avg_dec, stale_jan]
   \<and> stale_jan \<noteq> \<lparr>bucket_name = ''b1'', avg_year = 2025, avg_month = 1,
           avg_size_bytes = 200, avg_object_count = 3, data_points = 3\<rparr>"
  by code_simp

text \<open>
  C6, amended. When \<^verbatim>\<open>CalculateMonthlyAverages\<close> returns an error, nothing is rolled back:
  every upsert made before the failing call stays written. A run makes its calls in a
  fixed order: the query of the names, a \<^verbatim>\<open>Next\<close> and a \<^verbatim>\<open>Scan\<close> for each of the \<open>k\<close> names
  and a last \<^verbatim>\<open>Next\<close>, then for each bucket, in the order of the names, the query of its
  averages and its upsert. Let the call number \<open>p\<close> (from 0) be the first to fail. When
  it is the query of the names or a \<^verbatim>\<open>Scan\<close>, the call returns the error and the database
  is as it was. When it is the query of the averages or the upsert of bucket number
  \<open>n + 1\<close>, the call returns the error and the table of aggregates is the table before the
  call with the upserts of the first \<open>n\<close> buckets applied; nothing else has changed. (A
  failing \<^verbatim>\<open>Next\<close>, which the code takes for the end of the names, is left out here.)
\<close>

theorem CalculateMonthlyAverages_partial:
  assumes "p < 4 * length (month_buckets (bucket_usage db) year month) + 2"
    and "p \<le> 2 * length (month_buckets (bucket_usage db) year month) + 1 \<longrightarrow> even p"
  shows "CalculateMonthlyAverages db year month (replicate p False @ True # rest)
     = (db\<lparr>monthly_averages :=
             upsert_buckets (bucket_usage db) year month (monthly_averages db)
               (take ((p - (2 * length (month_buckets (bucket_usage db) year month) + 2)) div 2)
                  (month_buckets (bucket_usage db) year month))\<rparr>,
        Some DriverError)"
  using assms by (rule CalculateMonthlyAverages_fault)

text \<open>
  In the run above the names are b1 and b2, in the order of the index although the first
  sample stored is one of b2; call number 8, the query of the averages of b2, fails, and
  the upsert of b1 is what stays. When the scan of the second name fails (call number 4)
  nothing is written.
\<close>

theorem CalculateMonthlyAverages_partial_witness:
  "month_buckets (bucket_usage january_db) 2025 1 = [''b1'', ''b2'']
   \<and> map BucketName (bucket_usage january_db) = [''b2'', ''b1'', ''b1'', ''b1'']
   \<and> CalculateMonthlyAverages january_db 2025 1
          [False, False, False, False, False, False, False, False, True]
      = (january_db\<lparr>monthly_averages :=
           [avg_dec,
            \<lparr>bucket_name = ''b1'', avg_year = 2025, avg_month = 1,
              avg_size_bytes = 200, avg_object_count = 3, data_points = 3\<rparr>]\<rparr>,
         Some DriverError)
   \<and> CalculateMonthlyAverages january_db 2025 1 [False, False, False, False, True]
      = (january_db, Some DriverError)"
proof -
  have k: "month_buckets (bucket_usage january_db) 2025 1 = [''b1'', ''b2'']"
    by code_simp
  have n: "map BucketName (bucket_usage january_db) = [''b2'', ''b1'', ''b1'', ''b1'']"
    by code_simp
  have u: "upsert_buckets (bucket_usage january_db) 2025 1 (monthly_averages january_db) [''b1'']
      = [avg_dec,
         \<lparr>bucket_name = ''b1'', avg_year = 2025, avg_month = 1,
           avg_size_bytes = 200, avg_object_count = 3, data_points = 3\<rparr>]"
    by code_simp
  have z: "january_db\<lparr>monthly_averages :=
             upsert_buckets (bucket_usage january_db) 2025 1 (monthly_averages january_db) []\<rparr>
           = january_db"
    by (simp add: upsert_buckets_def)
  have a: "CalculateMonthlyAverages january_db 2025 1 (replicate 8 False @ True # [])
      = (january_db\<lparr>monthly_averages :=
           upsert_buckets (bucket_usage january_db) 2025 1 (monthly_averages january_db)
             (take ((8 - (2 * length [''b1'', ''b2''] + 2)) div 2) [''b1'', ''b2''])\<rparr>,
         Some DriverError)"
    using CalculateMonthlyAverages_partial [of 8 january_db 2025 1 "[]"]
    unfolding k by simp
  have b: "CalculateMonthlyAverages january_db 2025 1 (replicate 4 False @ True # [])
      = (january_db\<lparr>monthly_averages :=
           upsert_buckets (bucket_usage january_db) 2025 1 (monthly_averages january_db)
             (take ((4 - (2 * length [''b1'', ''b2''] + 2)) div 2) [''b1'', ''b2''])\<rparr>,
         Some DriverError)"
    using CalculateMonthlyAverages_partial [of 4 january_db 2025 1 "[]"]
    unfolding k by simp
  have r8: "replicate 8 False @ True # []
             = [False, False, False, False, False, False, False, False, True]"
    and r4: "replicate 4 False @ True # [] = [False, False, False, False, True]"
    by (simp_all add: numeral_eq_Suc)
  from a have "CalculateMonthlyAverages january_db 2025 1
          [False, False, False, False, False, False, False, False, True]
      = (january_db\<lparr>monthly_averages :=
           [avg_dec,
            \<lparr>bucket_name = ''b1'', avg_year = 2025, avg_month = 1,
              avg_size_bytes = 200, avg_object_count = 3, data_points = 3\<rparr>]\<rparr>,
         Some DriverError)"
    unfolding r8 by (simp add: u)
  moreover from b have "CalculateMonthlyAverages january_db 2025 1 [False, False, False, False, True]
      = (january_db, Some DriverError)"
    unfolding r4 by (simp add: z)
  ultimately show ?thesis using k n by simp
qed

subsection \<open>Storing and reading back a sample\<close>





section \<open>Properties of the client\<close>

lemma usage_loop_map_filter:
  "usage_loop api i buckets =
     List.map_filter (\<lambda>p. case fetch api p of Inl err \<Rightarrow> None | Inr usage \<Rightarrow> Some usage)
       (enumerate i buckets)"
  by (induction buckets arbitrary: i) (auto simp: List.map_filter_simps fetch_def split: sum.splits)

lemma S3Client_GetBucketUsage_name:
  "S3Client_GetBucketUsage resp now bucketName = Inr usage \<Longrightarrow> BucketName usage = bucketName"
  by (auto simp: S3Client_GetBucketUsage_def split: sum.splits)

lemma usage_loop_names:
  "map BucketName (usage_loop api i buckets) =
     map snd (filter (\<lambda>p. \<not> isl (fetch api p)) (enumerate i buckets))"
  by (induction buckets arbitrary: i)
    (auto simp: fetch_def split: sum.splits dest: S3Client_GetBucketUsage_name)

lemma UTC_instant: "unixNano (UTC now) = unixNano now"
  by (simp add: UTC_def)

lemma sint_times_1024:
  fixes k :: "64 word"
  assumes "- (2 ^ 53) \<le> sint k" "sint k < 2 ^ 53"
  shows "sint (k * 1024) = sint k * 1024"
proof -
  have "sint (k * 1024) = signed_take_bit 63 (sint k * sint (1024 :: 64 word))"
    by (simp add: sint_word_ariths)
  also have "sint (1024 :: 64 word) = 1024" by simp
  also have "signed_take_bit 63 (sint k * 1024) = sint k * 1024"
    using assms by (intro signed_take_bit_int_eq_self) simp_all
  finally show ?thesis .
qed

lemma folded_fields:
  "foldName ''bucket'' = ''BUCKET''" "foldName ''usage'' = ''USAGE''" "foldName ''id'' = ''ID''"
  "foldName ''owner'' = ''OWNER''" "foldName ''zonegroup'' = ''ZONEGROUP''"
  "foldName ''placement_rule'' = ''PLACEMENT_RULE''" "foldName ''creation_time'' = ''CREATION_TIME''"
  by code_simp+

lemma decode_members_None:
  assumes "\<And>cur k v. (k, v) \<in> set kvs \<Longrightarrow> (f cur k v = None) = (\<not> ok (k, v))"
  shows "(decode_members f cur kvs = None) = (\<not> list_all ok kvs)"
  using assms
proof (induction kvs arbitrary: cur)
  case Nil
  show ?case by simp
next
  case (Cons p kvs)
  obtain k v where p: "p = (k, v)" by (cases p)
  from Cons.prems have hd: "(f cur k v = None) = (\<not> ok (k, v))" by (simp add: p)
  from Cons.prems have tl: "\<And>cur k v. (k, v) \<in> set kvs \<Longrightarrow> (f cur k v = None) = (\<not> ok (k, v))"
    by simp
  show ?case
  proof (cases "f cur k v")
    case None
    with hd show ?thesis by (simp add: p)
  next
    case (Some st)
    with hd Cons.IH [OF tl, of st] show ?thesis by (simp add: p)
  qed
qed

lemma decode_members_keeps:
  assumes "decode_members f cur kvs = Some st"
    and "\<And>cur k v st. (k, v) \<in> set kvs \<Longrightarrow> f cur k v = Some st \<Longrightarrow> g st = g cur"
  shows "g st = g cur"
  using assms
proof (induction kvs arbitrary: cur)
  case Nil
  then show ?case by simp
next
  case (Cons p kvs)
  obtain k v where p: "p = (k, v)" by (cases p)
  from Cons.prems(1) obtain mid where mid: "f cur k v = Some mid"
    and rest: "decode_members f mid kvs = Some st"
    by (auto simp: p split: option.splits)
  have step: "g mid = g cur"
    by (rule Cons.prems(2) [of k v cur mid]) (simp_all add: p mid)
  have "g st = g mid"
  proof (rule Cons.IH [OF rest])
    fix cur' k' v' st'
    assume "(k', v') \<in> set kvs" "f cur' k' v' = Some st'"
    then show "g st' = g cur'" by (intro Cons.prems(2) [of k' v' cur' st']) simp_all
  qed
  with step show ?case by simp
qed

lemma decode_int64_None: "(decode_int64 cur v = None) = (\<not> int64_or_null v)"
  by (cases v) (simp_all add: decode_int64_def int64_or_null_def)

lemma decode_string_None: "(decode_string cur v = None) = (\<not> string_or_null v)"
  by (cases v) (simp_all add: decode_string_def string_or_null_def)

lemma RgwMain_member_None:
  "(RgwMain_member cur k v = None) = (\<not> (counter_field k \<longrightarrow> int64_or_null v))"
  by (simp add: RgwMain_member_def counter_field_def decode_int64_None)

lemma decode_main_None:
  "(decode_struct RgwMain_member cur v = None) = (\<not> well_typed_main v)"
proof (cases v)
  case (JObject kvs)
  have "(decode_members RgwMain_member cur kvs = None)
          = (\<not> list_all (\<lambda>(k, x). counter_field k \<longrightarrow> int64_or_null x) kvs)"
    by (rule decode_members_None) (simp add: RgwMain_member_None)
  then show ?thesis by (simp add: JObject decode_struct_def well_typed_main_def)
qed (simp_all add: decode_struct_def well_typed_main_def)

lemma Usage_member_None:
  "(Usage_member cur k v = None) = (\<not> (names k ''rgw.main'' \<longrightarrow> well_typed_main v))"
  using decode_main_None [of "RgwMain cur" v] by (simp add: Usage_member_def)

lemma decode_usage_None:
  "(decode_struct Usage_member cur v = None) = (\<not> well_typed_usage v)"
proof (cases v)
  case (JObject kvs)
  have "(decode_members Usage_member cur kvs = None)
          = (\<not> list_all (\<lambda>(k, x). names k ''rgw.main'' \<longrightarrow> well_typed_main x) kvs)"
    by (rule decode_members_None) (simp add: Usage_member_None)
  then show ?thesis by (simp add: JObject decode_struct_def well_typed_usage_def)
qed (simp_all add: decode_struct_def well_typed_usage_def)

lemma BucketStats_member_None:
  "(BucketStats_member cur k v = None)
     = (\<not> ((string_field k \<longrightarrow> string_or_null v) \<and> (names k ''usage'' \<longrightarrow> well_typed_usage v)))"
  using decode_usage_None [of "Usage cur" v]
  unfolding BucketStats_member_def string_field_def names_def folded_fields
  by (simp add: decode_string_None)

lemma decode_stats_None:
  "(decode_struct BucketStats_member cur v = None) = (\<not> well_typed_stats v)"
proof (cases v)
  case (JObject kvs)
  have "(decode_members BucketStats_member cur kvs = None)
          = (\<not> list_all (\<lambda>(k, x). (string_field k \<longrightarrow> string_or_null x)
                            \<and> (names k ''usage'' \<longrightarrow> well_typed_usage x)) kvs)"
    by (rule decode_members_None) (simp add: BucketStats_member_None)
  then show ?thesis by (simp add: JObject decode_struct_def well_typed_stats_def)
qed (simp_all add: decode_struct_def well_typed_stats_def)

lemma folded_counters:
  "foldName ''size_kb'' = ''SIZE_KB''" "foldName ''size_kb_actual'' = ''SIZE_KB_ACTUAL''"
  "foldName ''num_objects'' = ''NUM_OBJECTS''" "foldName ''rgw.main'' = ''RGW.MAIN''"
  by code_simp+

lemma RgwMain_member_counts:
  assumes "RgwMain_member cur k v = Some st"
    and "names k ''size_kb'' \<or> names k ''num_objects'' \<longrightarrow> v = JNull"
  shows "(SizeKB st, NumObjects st) = (SizeKB cur, NumObjects cur)"
  using assms
  unfolding RgwMain_member_def names_def folded_counters
  by (auto simp: decode_int64_def split: if_splits)

lemma decode_main_counts:
  assumes "decode_struct RgwMain_member cur v = Some st" "no_counts_main v"
  shows "(SizeKB st, NumObjects st) = (SizeKB cur, NumObjects cur)"
proof (cases v)
  case (JObject kvs)
  with assms have d: "decode_members RgwMain_member cur kvs = Some st"
    and n: "list_all (\<lambda>(k, x). names k ''size_kb'' \<or> names k ''num_objects'' \<longrightarrow> x = JNull) kvs"
    by (simp_all add: decode_struct_def no_counts_main_def)
  show ?thesis
  proof (rule decode_members_keeps [OF d])
    fix c k x s
    assume "(k, x) \<in> set kvs" "RgwMain_member c k x = Some s"
    with n show "(SizeKB s, NumObjects s) = (SizeKB c, NumObjects c)"
      by (intro RgwMain_member_counts [of c k x s]) (auto simp: list_all_iff)
  qed
qed (use assms in \<open>simp_all add: decode_struct_def\<close>)

lemma Usage_member_counts:
  assumes "Usage_member cur k v = Some st"
    and "names k ''rgw.main'' \<longrightarrow> no_counts_main v"
  shows "(SizeKB (RgwMain st), NumObjects (RgwMain st))
           = (SizeKB (RgwMain cur), NumObjects (RgwMain cur))"
proof (cases "names k ''rgw.main''")
  case True
  with assms obtain x where x: "decode_struct RgwMain_member (RgwMain cur) v = Some x"
    and st: "st = cur\<lparr>RgwMain := x\<rparr>"
    by (auto simp: Usage_member_def)
  from decode_main_counts [OF x] assms(2) True st show ?thesis by simp
next
  case False
  with assms show ?thesis by (simp add: Usage_member_def)
qed

lemma decode_usage_counts:
  assumes "decode_struct Usage_member cur v = Some st" "no_counts_usage v"
  shows "(SizeKB (RgwMain st), NumObjects (RgwMain st))
           = (SizeKB (RgwMain cur), NumObjects (RgwMain cur))"
proof (cases v)
  case (JObject kvs)
  with assms have d: "decode_members Usage_member cur kvs = Some st"
    and n: "list_all (\<lambda>(k, x). names k ''rgw.main'' \<longrightarrow> no_counts_main x) kvs"
    by (simp_all add: decode_struct_def no_counts_usage_def)
  show ?thesis
  proof (rule decode_members_keeps [OF d])
    fix c k x s
    assume "(k, x) \<in> set kvs" "Usage_member c k x = Some s"
    with n show "(SizeKB (RgwMain s), NumObjects (RgwMain s))
           = (SizeKB (RgwMain c), NumObjects (RgwMain c))"
      by (intro Usage_member_counts [of c k x s]) (auto simp: list_all_iff)
  qed
qed (use assms in \<open>simp_all add: decode_struct_def\<close>)

lemma BucketStats_member_counts:
  assumes "BucketStats_member cur k v = Some st"
    and "names k ''usage'' \<longrightarrow> no_counts_usage v"
  shows "(SizeKB (RgwMain (Usage st)), NumObjects (RgwMain (Usage st)))
           = (SizeKB (RgwMain (Usage cur)), NumObjects (RgwMain (Usage cur)))"
proof (cases "names k ''usage''")
  case True
  then have "\<not> names k ''bucket''" by (simp add: names_def folded_fields)
  with True assms obtain x where x: "decode_struct Usage_member (Usage cur) v = Some x"
    and st: "st = cur\<lparr>Usage := x\<rparr>"
    by (auto simp: BucketStats_member_def)
  from decode_usage_counts [OF x] assms(2) True st show ?thesis by simp
next
  case False
  with assms show ?thesis by (auto simp: BucketStats_member_def split: if_splits)
qed

lemma decode_stats_counts:
  assumes "decode_struct BucketStats_member cur v = Some st" "no_counts v"
  shows "(SizeKB (RgwMain (Usage st)), NumObjects (RgwMain (Usage st)))
           = (SizeKB (RgwMain (Usage cur)), NumObjects (RgwMain (Usage cur)))"
proof (cases v)
  case (JObject kvs)
  with assms have d: "decode_members BucketStats_member cur kvs = Some st"
    and n: "list_all (\<lambda>(k, x). names k ''usage'' \<longrightarrow> no_counts_usage x) kvs"
    by (simp_all add: decode_struct_def no_counts_def)
  show ?thesis
  proof (rule decode_members_keeps [OF d])
    fix c k x s
    assume "(k, x) \<in> set kvs" "BucketStats_member c k x = Some s"
    with n show "(SizeKB (RgwMain (Usage s)), NumObjects (RgwMain (Usage s)))
           = (SizeKB (RgwMain (Usage c)), NumObjects (RgwMain (Usage c)))"
      by (intro BucketStats_member_counts [of c k x s]) (auto simp: list_all_iff)
  qed
qed (use assms in \<open>simp_all add: decode_struct_def\<close>)

subsection \<open>The claims about the client\<close>

text \<open>
  C5. When the listing request gives a list of buckets, \<^verbatim>\<open>GetAllBucketsUsage\<close> returns no
  error, whatever the statistics requests do; its records are those of the requests that
  succeeded, in the order of the list, one for each such bucket and under its name. A
  request that fails is skipped and the loop goes on.
\<close>

theorem GetAllBucketsUsage_partial:
  assumes "GetBuckets (list_response api) = Inr buckets"
  shows "snd (GetAllBucketsUsage api) = None
    \<and> fst (GetAllBucketsUsage api) =
        List.map_filter (\<lambda>p. case fetch api p of Inl err \<Rightarrow> None | Inr usage \<Rightarrow> Some usage)
          (enumerate 0 buckets)
    \<and> map BucketName (fst (GetAllBucketsUsage api)) =
        map snd (filter (\<lambda>p. \<not> isl (fetch api p)) (enumerate 0 buckets))"
  using assms
  by (simp add: GetAllBucketsUsage_def usage_loop_map_filter [symmetric] usage_loop_names)

text \<open>
  Two buckets are listed and the request for the second fails: one record, no error.
\<close>

theorem GetAllBucketsUsage_partial_witness:
  "GetBuckets (list_response example_api) = Inr [''b1'', ''b2'']
   \<and> isl (fetch example_api (1, ''b2''))
   \<and> GetAllBucketsUsage example_api =
       ([\<lparr>ID = 0, BucketName = ''b1'', SizeBytes = 12288, ObjectCount = 3,
           Timestamp = time_Date 2025 2 21 9 0 0 0\<rparr>], None)"
proof -
  have l: "GetBuckets (list_response example_api) = Inr [''b1'', ''b2'']"
    by code_simp
  have f: "isl (fetch example_api (1, ''b2''))"
    by code_simp
  have m: "List.map_filter (\<lambda>p. case fetch example_api p of Inl err \<Rightarrow> None | Inr usage \<Rightarrow> Some usage)
          (enumerate 0 [''b1'', ''b2''])
      = [\<lparr>ID = 0, BucketName = ''b1'', SizeBytes = 12288, ObjectCount = 3,
           Timestamp = time_Date 2025 2 21 9 0 0 0\<rparr>]"
    by code_simp
  from GetAllBucketsUsage_partial [OF l] have "GetAllBucketsUsage example_api =
       ([\<lparr>ID = 0, BucketName = ''b1'', SizeBytes = 12288, ObjectCount = 3,
           Timestamp = time_Date 2025 2 21 9 0 0 0\<rparr>], None)"
    unfolding m by (cases "GetAllBucketsUsage example_api") simp
  with l f show ?thesis by simp
qed

text \<open>
  A response that reports \<open>k\<close> KiB and \<open>n\<close> objects, both within \<^verbatim>\<open>int64\<close>: the record
  holds \<open>k\<close> times 1024 in \<^verbatim>\<open>int64\<close> arithmetic, \<open>n\<close> objects and the reading of the clock;
  the product is the exact one when \<open>k\<close> lies between -2^53 and 2^53 - 1.
\<close>

lemma S3Client_GetBucketUsage_reported:
  assumes "- (2 ^ 63) \<le> k" "k < 2 ^ 63" "- (2 ^ 63) \<le> n" "n < 2 ^ 63"
  shows "S3Client_GetBucketUsage
           (Inr (Some (JObject [(''usage'', JObject [(''rgw.main'', JObject
              [(''size_kb'', JInt k), (''num_objects'', JInt n)])])])))
           now bucketName
         = Inr \<lparr>ID = 0, BucketName = bucketName, SizeBytes = word_of_int k * 1024,
                ObjectCount = word_of_int n, Timestamp = unixNano now\<rparr>"
proof -
  have n: "names ''usage'' ''usage''" "\<not> names ''usage'' ''bucket''"
    "names ''rgw.main'' ''rgw.main''"
    "names ''size_kb'' ''size_kb''"
    "\<not> names ''num_objects'' ''size_kb''" "\<not> names ''num_objects'' ''size_kb_actual''"
    "names ''num_objects'' ''num_objects''"
    by code_simp+
  show ?thesis
    using assms
    by (simp add: S3Client_GetBucketUsage_def Unmarshal_BucketStats_def decode_struct_def
        BucketStats_member_def Usage_member_def RgwMain_member_def decode_int64_def n
        zero_BucketStats_def UTC_instant)
qed

lemma S3Client_GetBucketUsage_exact:
  assumes "- (2 ^ 53) \<le> k" "k < 2 ^ 53"
  shows "sint (word_of_int k * 1024 :: 64 word) = k * 1024"
proof -
  have "signed_take_bit 63 k = k"
    using assms by (intro signed_take_bit_int_eq_self) simp_all
  then have "sint (word_of_int k :: 64 word) = k"
    by (simp add: sint_sbintrunc')
  with assms sint_times_1024 [of "word_of_int k"] show ?thesis by simp
qed

text \<open>
  C8. The size of a sample is meant to be the reported size in KiB times 1024 (the code's
  comment: ``Convert KB to bytes''), and a size is never negative. The product is taken in
  \<^verbatim>\<open>int64\<close> without a check: for a response that reports 2^53 KiB and 3 objects the
  record holds -2^63 bytes, where the product is 2^63. The object count and the timestamp
  of that record are the reported count and the reading of the clock.
\<close>

theorem S3Client_GetBucketUsage_overflow:
  "sint (SizeKB (RgwMain (Usage (projr (Unmarshal_BucketStats huge_body))))) = 9007199254740992
   \<and> S3Client_GetBucketUsage (Inr huge_body) example_now ''b1''
     = Inr \<lparr>ID = 0, BucketName = ''b1'', SizeBytes = word_of_int (- 9223372036854775808),
            ObjectCount = 3, Timestamp = unixNano example_now\<rparr>
   \<and> sint (SizeBytes (projr (S3Client_GetBucketUsage (Inr huge_body) example_now ''b1'')))
     = - 9223372036854775808
   \<and> (9007199254740992 :: int) * 1024 = 9223372036854775808"
  by code_simp

text \<open>
  C10, as the claim states it, fails in both directions: a body that parses as a JSON
  object is refused when a member that names a field holds a value of another type, and
  the body \<^verbatim>\<open>null\<close>, which is no object, is accepted.
\<close>

theorem S3Client_GetBucketUsage_type_error:
  "S3Client_GetBucketUsage (Inr (Some (JObject [(''bucket'', JInt 5)]))) example_now ''b1''
     = Inl (DecodeFailed UnmarshalTypeError)
   \<and> S3Client_GetBucketUsage (Inr (Some (JObject [(''usage'', JInt 5)]))) example_now ''b1''
     = Inl (DecodeFailed UnmarshalTypeError)
   \<and> S3Client_GetBucketUsage (Inr (Some JNull)) example_now ''b1''
     = Inr \<lparr>ID = 0, BucketName = ''b1'', SizeBytes = 0, ObjectCount = 0,
            Timestamp = time_Date 2025 2 21 9 0 0 0\<rparr>"
  by code_simp

text \<open>
  C10, amended. \<^verbatim>\<open>GetBucketUsage\<close> returns a decode error exactly when the body is not
  valid JSON or is not well typed for \<^verbatim>\<open>BucketStats\<close>: its value is neither \<^verbatim>\<open>null\<close> nor an
  object, or some member that names a field, at any of the three levels, holds a value the
  field does not take. For every well typed body that reports no counts (the empty object,
  an object without usage, with an empty or \<^verbatim>\<open>null\<close> usage, with an empty \<^verbatim>\<open>rgw.main\<close>) it
  returns no error and a sample with size 0 and object count 0, stamped with the reading of
  the clock.
\<close>

theorem S3Client_GetBucketUsage_decode:
  "S3Client_GetBucketUsage (Inr None) now bucketName = Inl (DecodeFailed SyntaxError)
   \<and> (\<not> well_typed_stats v \<longrightarrow>
        S3Client_GetBucketUsage (Inr (Some v)) now bucketName = Inl (DecodeFailed UnmarshalTypeError))
   \<and> (well_typed_stats v \<longrightarrow> \<not> isl (S3Client_GetBucketUsage (Inr (Some v)) now bucketName))
   \<and> (well_typed_stats v \<and> no_counts v \<longrightarrow>
        S3Client_GetBucketUsage (Inr (Some v)) now bucketName = Inr (zero_usage bucketName now))"
proof (intro conjI impI)
  show "S3Client_GetBucketUsage (Inr None) now bucketName = Inl (DecodeFailed SyntaxError)"
    by (simp add: S3Client_GetBucketUsage_def Unmarshal_BucketStats_def)
next
  assume "\<not> well_typed_stats v"
  then have "decode_struct BucketStats_member zero_BucketStats v = None"
    by (simp add: decode_stats_None)
  then show "S3Client_GetBucketUsage (Inr (Some v)) now bucketName
               = Inl (DecodeFailed UnmarshalTypeError)"
    by (simp add: S3Client_GetBucketUsage_def Unmarshal_BucketStats_def)
next
  assume "well_typed_stats v"
  then have "decode_struct BucketStats_member zero_BucketStats v \<noteq> None"
    by (simp add: decode_stats_None)
  then show "\<not> isl (S3Client_GetBucketUsage (Inr (Some v)) now bucketName)"
    by (auto simp: S3Client_GetBucketUsage_def Unmarshal_BucketStats_def)
next
  assume a: "well_typed_stats v \<and> no_counts v"
  then have "decode_struct BucketStats_member zero_BucketStats v \<noteq> None"
    by (simp add: decode_stats_None)
  then obtain st where st: "decode_struct BucketStats_member zero_BucketStats v = Some st"
    by auto
  from decode_stats_counts [OF st] a
  have "SizeKB (RgwMain (Usage st)) = 0" "NumObjects (RgwMain (Usage st)) = 0"
    by (simp_all add: zero_BucketStats_def)
  with st show "S3Client_GetBucketUsage (Inr (Some v)) now bucketName
                  = Inr (zero_usage bucketName now)"
    by (simp add: S3Client_GetBucketUsage_def Unmarshal_BucketStats_def zero_usage_def UTC_instant)
qed


text \<open>
  The bodies \<^verbatim>\<open>{}\<close>, \<^verbatim>\<open>{"usage":{}}\<close>, \<^verbatim>\<open>{"usage":{"rgw.main":{}}}\<close> and \<^verbatim>\<open>{"usage":null}\<close>,
  and an object with an unknown member and a creation time, give the zero sample; an
  array, an object whose owner is a number and an object whose usage is a number are
  refused; the statistics of the example are accepted.
\<close>

theorem S3Client_GetBucketUsage_decode_witness:
  "S3Client_GetBucketUsage (Inr (Some (JObject []))) example_now ''b1''
     = Inr (zero_usage ''b1'' example_now)
   \<and> S3Client_GetBucketUsage (Inr (Some (JObject [(''usage'', JObject [])]))) example_now ''b1''
     = Inr (zero_usage ''b1'' example_now)
   \<and> S3Client_GetBucketUsage
        (Inr (Some (JObject [(''usage'', JObject [(''rgw.main'', JObject [])])]))) example_now ''b1''
     = Inr (zero_usage ''b1'' example_now)
   \<and> S3Client_GetBucketUsage (Inr (Some (JObject [(''usage'', JNull)]))) example_now ''b1''
     = Inr (zero_usage ''b1'' example_now)
   \<and> S3Client_GetBucketUsage
        (Inr (Some (JObject [(''tenant'', JInt 1), (''Creation_Time'', JString ''2024'')])))
        example_now ''b1''
     = Inr (zero_usage ''b1'' example_now)
   \<and> zero_usage ''b1'' example_now
     = \<lparr>ID = 0, BucketName = ''b1'', SizeBytes = 0, ObjectCount = 0,
         Timestamp = time_Date 2025 2 21 9 0 0 0\<rparr>
   \<and> S3Client_GetBucketUsage (Inr (Some (JArray [JInt 1]))) example_now ''b1''
     = Inl (DecodeFailed UnmarshalTypeError)
   \<and> S3Client_GetBucketUsage
        (Inr (Some (JObject [(''zonegroup'', JString ''z''), (''Owner'', JInt 7)])))
        example_now ''b1''
     = Inl (DecodeFailed UnmarshalTypeError)
   \<and> S3Client_GetBucketUsage
        (Inr (Some (JObject [(''usage'', JObject [(''rgw.main'', JObject
           [(''size_kb'', JFloat ''1.5'')])])])))
        example_now ''b1''
     = Inl (DecodeFailed UnmarshalTypeError)
   \<and> \<not> isl (S3Client_GetBucketUsage (Inr stats_body) example_now ''b1'')"
proof -
  note t = S3Client_GetBucketUsage_decode [where now = example_now and bucketName = "''b1''"]
  have z: "zero_usage ''b1'' example_now
      = \<lparr>ID = 0, BucketName = ''b1'', SizeBytes = 0, ObjectCount = 0,
            Timestamp = time_Date 2025 2 21 9 0 0 0\<rparr>"
    by (simp add: zero_usage_def example_now_def)
  have "well_typed_stats (JObject []) \<and> no_counts (JObject [])"
    by code_simp
  with t [where v = "JObject []"]
  have 1: "S3Client_GetBucketUsage (Inr (Some (JObject []))) example_now ''b1''
          = Inr (zero_usage ''b1'' example_now)"
    by blast
  have "well_typed_stats (JObject [(''usage'', JObject [])])
        \<and> no_counts (JObject [(''usage'', JObject [])])"
    by code_simp
  with t [where v = "JObject [(''usage'', JObject [])]"]
  have 2: "S3Client_GetBucketUsage (Inr (Some (JObject [(''usage'', JObject [])]))) example_now ''b1''
          = Inr (zero_usage ''b1'' example_now)"
    by blast
  have "well_typed_stats (JObject [(''usage'', JObject [(''rgw.main'', JObject [])])])
        \<and> no_counts (JObject [(''usage'', JObject [(''rgw.main'', JObject [])])])"
    by code_simp
  with t [where v = "JObject [(''usage'', JObject [(''rgw.main'', JObject [])])]"]
  have 3: "S3Client_GetBucketUsage
        (Inr (Some (JObject [(''usage'', JObject [(''rgw.main'', JObject [])])]))) example_now ''b1''
          = Inr (zero_usage ''b1'' example_now)"
    by blast
  have "well_typed_stats (JObject [(''usage'', JNull)]) \<and> no_counts (JObject [(''usage'', JNull)])"
    by code_simp
  with t [where v = "JObject [(''usage'', JNull)]"]
  have 4: "S3Client_GetBucketUsage (Inr (Some (JObject [(''usage'', JNull)]))) example_now ''b1''
          = Inr (zero_usage ''b1'' example_now)"
    by blast
  have "well_typed_stats (JObject [(''tenant'', JInt 1), (''Creation_Time'', JString ''2024'')])
        \<and> no_counts (JObject [(''tenant'', JInt 1), (''Creation_Time'', JString ''2024'')])"
    by code_simp
  with t [where v = "JObject [(''tenant'', JInt 1), (''Creation_Time'', JString ''2024'')]"]
  have 5: "S3Client_GetBucketUsage
        (Inr (Some (JObject [(''tenant'', JInt 1), (''Creation_Time'', JString ''2024'')])))
        example_now ''b1'' = Inr (zero_usage ''b1'' example_now)"
    by blast
  have "\<not> well_typed_stats (JArray [JInt 1])"
    by code_simp
  with t [where v = "JArray [JInt 1]"]
  have 6: "S3Client_GetBucketUsage (Inr (Some (JArray [JInt 1]))) example_now ''b1''
     = Inl (DecodeFailed UnmarshalTypeError)"
    by blast
  have "\<not> well_typed_stats (JObject [(''zonegroup'', JString ''z''), (''Owner'', JInt 7)])"
    by code_simp
  with t [where v = "JObject [(''zonegroup'', JString ''z''), (''Owner'', JInt 7)]"]
  have 7: "S3Client_GetBucketUsage
        (Inr (Some (JObject [(''zonegroup'', JString ''z''), (''Owner'', JInt 7)])))
        example_now ''b1''
     = Inl (DecodeFailed UnmarshalTypeError)"
    by blast
  have "\<not> well_typed_stats (JObject [(''usage'', JObject [(''rgw.main'', JObject
           [(''size_kb'', JFloat ''1.5'')])])])"
    by code_simp
  with t [where v = "JObject [(''usage'', JObject [(''rgw.main'', JObject
           [(''size_kb'', JFloat ''1.5'')])])]"]
  have 8: "S3Client_GetBucketUsage
        (Inr (Some (JObject [(''usage'', JObject [(''rgw.main'', JObject
           [(''size_kb'', JFloat ''1.5'')])])])))
        example_now ''b1''
     = Inl (DecodeFailed UnmarshalTypeError)"
    by blast
  have "well_typed_stats (the stats_body)"
    by code_simp
  with t [where v = "the stats_body"]
  have 9: "\<not> isl (S3Client_GetBucketUsage (Inr stats_body) example_now ''b1'')"
    by (simp add: stats_body_def)
  from 1 2 3 4 5 6 7 8 9 z show ?thesis by (intro conjI)
qed

end
